theory Spec2Isabelle
  imports Main
begin

section \<open>The snake game of \<^verbatim>\<open>src/SnakeGame.tsx\<close>\<close>

text \<open>
  The component keeps six pieces of React state (\<^verbatim>\<open>snake\<close>, \<^verbatim>\<open>food\<close>, \<^verbatim>\<open>gameOver\<close>,
  \<^verbatim>\<open>score\<close>, \<^verbatim>\<open>isPaused\<close>, \<^verbatim>\<open>gameStarted\<close>) and one mutable cell
  (\<^verbatim>\<open>directionRef.current\<close>). Three pieces of code change them: the key handler
  \<^verbatim>\<open>handleKeyPress\<close>, the interval callback of the game loop, and \<^verbatim>\<open>startGame\<close>; a fourth,
  the effect that runs once after the first render, places the first food.
  Each is modelled as a function from the state before to the state after, one event at a
  time, as the single-threaded event loop runs them.
\<close>

subsection \<open>Positions and directions\<close>

text \<open>
  \<^verbatim>\<open>type Position = { x: number; y: number }\<close>. Every coordinate the program stores is an
  integer (a literal, a floor, or an earlier coordinate plus or minus one), so a coordinate
  is an \<^typ>\<open>int\<close>.
\<close>

record Position =
  x :: int
  y :: int

datatype Direction = UP | DOWN | LEFT | RIGHT

definition GRID_SIZE :: int where
  "GRID_SIZE = 20"

definition INITIAL_SNAKE :: "Position list" where
  "INITIAL_SNAKE = [\<lparr>x = 10, y = 10\<rparr>, \<lparr>x = 10, y = 11\<rparr>, \<lparr>x = 10, y = 12\<rparr>]"

definition INITIAL_DIRECTION :: Direction where
  "INITIAL_DIRECTION = UP"

subsection \<open>Doubles\<close>

text \<open>
  \<^verbatim>\<open>Math.random() * GRID_SIZE\<close> is a product of two IEEE 754 binary64 numbers, rounded to
  the nearest binary64 number, a tie going to the even significand. The numbers that occur
  are finite and not negative, so a double is modelled by a significand and an exponent:
  \<open>\<lparr>mant = m, expo = e\<rparr>\<close> stands for \<open>m * 2\<^sup>e\<close>. A binary64 number has \<open>m < 2\<^sup>5\<^sup>3\<close> and
  \<open>- 1074 \<le> e\<close>.
\<close>

record double =
  mant :: nat
  expo :: int

text \<open>The number of binary digits of a natural number.\<close>

fun bitLength :: "nat \<Rightarrow> nat" where
  "bitLength n = (if n = 0 then 0 else Suc (bitLength (n div 2)))"

text \<open>
  The binary64 number nearest to the exact value \<open>m * 2\<^sup>e\<close>: the \<open>k\<close> digits of \<open>m\<close> beyond
  the 53 that a significand holds are cut off, and the significand is rounded up when the
  part cut off is more than half a unit in the last place, or exactly half and the
  significand is odd. (The values here stay below the overflow threshold, and \<open>- 1074 \<le> e\<close>,
  so there is no other case.)
\<close>

definition roundToDouble :: "nat \<Rightarrow> int \<Rightarrow> double" where
  "roundToDouble m e =
     (let k = bitLength m - 53; q = m div 2 ^ k; r = m mod 2 ^ k in
      \<lparr>mant = (if 2 ^ k < 2 * r \<or> (2 * r = 2 ^ k \<and> odd q) then q + 1 else q),
       expo = e + int k\<rparr>)"

text \<open>
  The product \<^verbatim>\<open>d * n\<close> of a double and a natural number that is a double itself: the exact
  product, rounded.
\<close>

definition timesDouble :: "double \<Rightarrow> nat \<Rightarrow> double" where
  "timesDouble d n = roundToDouble (mant d * n) (expo d)"

text \<open>\<^verbatim>\<open>Math.floor\<close> of a double that is not negative.\<close>

definition floorDouble :: "double \<Rightarrow> int" where
  "floorDouble d =
     (if 0 \<le> expo d then int (mant d * 2 ^ nat (expo d))
      else int (mant d div 2 ^ nat (- expo d)))"

subsection \<open>The random source and food placement\<close>

text \<open>
  \<^verbatim>\<open>Math.random()\<close> is the only input besides the events. The source of randomness is a
  parameter: the sequence of doubles that the successive calls of \<^verbatim>\<open>Math.random()\<close> return,
  together with a cursor that counts the calls made so far.
\<close>

type_synonym rng = "nat \<Rightarrow> double"

text \<open>
  \<^verbatim>\<open>Math.random()\<close> returns a binary64 number that is at least 0 and less than 1: a
  significand below \<open>2\<^sup>5\<^sup>3\<close> with a negative exponent \<open>e\<close>, and \<open>m * 2\<^sup>e < 1\<close>, that is,
  \<open>m < 2\<^sup>-\<^sup>e\<close> (zero is \<open>m = 0\<close> with any such exponent).
\<close>

definition unit_source :: "rng \<Rightarrow> bool" where
  "unit_source rnd \<longleftrightarrow>
     (\<forall>i. mant (rnd i) < 2 ^ 53 \<and> - 1074 \<le> expo (rnd i) \<and> expo (rnd i) < 0 \<and>
          mant (rnd i) < 2 ^ nat (- expo (rnd i)))"

text \<open>
  \<^verbatim>\<open>generateFood\<close> (lines 32-38): two calls of \<^verbatim>\<open>Math.random()\<close>, the first for \<^verbatim>\<open>x\<close>,
  each multiplied by \<^verbatim>\<open>GRID_SIZE\<close> and floored. The result is the drawn position and the
  cursor after the two calls.
\<close>

definition generateFood :: "rng \<Rightarrow> nat \<Rightarrow> Position \<times> nat" where
  "generateFood rnd i =
     (\<lparr>x = floorDouble (timesDouble (rnd i) (nat GRID_SIZE)),
       y = floorDouble (timesDouble (rnd (i + 1)) (nat GRID_SIZE))\<rparr>, i + 2)"

text \<open>\<^verbatim>\<open>isValidFoodPosition\<close> (lines 41-43).\<close>

definition isValidFoodPosition :: "Position \<Rightarrow> Position list \<Rightarrow> bool" where
  "isValidFoodPosition pos snakeBody \<longleftrightarrow>
     \<not> list_ex (\<lambda>segment. x segment = x pos \<and> y segment = y pos) snakeBody"

text \<open>
  The loop \<^verbatim>\<open>while (!isValidFoodPosition(newFood, body)) newFood = generateFood();\<close>
  (lines 48-50, 69-71 and 168-170). Nothing bounds the number of rounds, so the loop is a
  partial function: \<^term>\<open>None\<close> is the loop that never ends.
\<close>

partial_function (option) foodLoop ::
  "rng \<Rightarrow> Position list \<Rightarrow> Position \<Rightarrow> nat \<Rightarrow> (Position \<times> nat) option" where
  "foodLoop rnd snakeBody newFood i =
     (if \<not> isValidFoodPosition newFood snakeBody
      then foodLoop rnd snakeBody (fst (generateFood rnd i)) (snd (generateFood rnd i))
      else Some (newFood, i))"

text \<open>
  \<^verbatim>\<open>let newFood = generateFood();\<close> followed by the loop: the three places where food is
  placed all have this shape.
\<close>

definition placeFood :: "rng \<Rightarrow> Position list \<Rightarrow> nat \<Rightarrow> (Position \<times> nat) option" where
  "placeFood rnd snakeBody i =
     foodLoop rnd snakeBody (fst (generateFood rnd i)) (snd (generateFood rnd i))"

subsection \<open>The state\<close>

text \<open>
  The \<^verbatim>\<open>useState\<close> cells, \<^verbatim>\<open>directionRef.current\<close> as \<open>direction\<close>, and the cursor of the
  random source as \<open>drawn\<close>.
\<close>

record game =
  snake :: "Position list"
  food :: Position
  gameOver :: bool
  score :: int
  isPaused :: bool
  gameStarted :: bool
  direction :: Direction
  drawn :: nat

text \<open>The initial values of lines 21-28: what the first render shows.\<close>

definition initialGame :: game where
  "initialGame =
     \<lparr>snake = INITIAL_SNAKE, food = \<lparr>x = 15, y = 15\<rparr>, gameOver = False, score = 0,
      isPaused = False, gameStarted = False, direction = INITIAL_DIRECTION, drawn = 0\<rparr>"

text \<open>
  The effect of lines 46-52, run once after the first render: it places the first food
  against the snake of that render.
\<close>

definition mountEffect :: "rng \<Rightarrow> game \<Rightarrow> game option" where
  "mountEffect rnd s =
     (case placeFood rnd (snake s) (drawn s) of
        None \<Rightarrow> None
      | Some (newFood, i) \<Rightarrow> Some (s\<lparr>food := newFood, drawn := i\<rparr>))"

text \<open>\<^verbatim>\<open>startGame\<close> (lines 190-193), the handler of the start button.\<close>

definition startGame :: "game \<Rightarrow> game" where
  "startGame s = s\<lparr>gameStarted := True, isPaused := False\<rparr>"

text \<open>
  The four states the overlays of lines 219-249 and the guard of line 114 tell apart.
\<close>

datatype GameState = NotStarted | Running | Paused | GameOver

definition gameState :: "game \<Rightarrow> GameState" where
  "gameState s =
     (if \<not> gameStarted s then NotStarted
      else if gameOver s then GameOver
      else if isPaused s then Paused
      else Running)"

subsection \<open>The key handler\<close>

text \<open>
  \<^verbatim>\<open>keyMap\<close> (lines 81-90), read at \<^verbatim>\<open>e.key\<close>. A key value of the keyboard is never the
  name of a property that an object literal inherits, so a key outside the eight entries
  reads \<^verbatim>\<open>undefined\<close>.
\<close>

definition keyMap :: "string \<Rightarrow> Direction option" where
  "keyMap key =
     (if key = ''ArrowUp'' then Some UP
      else if key = ''ArrowDown'' then Some DOWN
      else if key = ''ArrowLeft'' then Some LEFT
      else if key = ''ArrowRight'' then Some RIGHT
      else if key = ''w'' then Some UP
      else if key = ''s'' then Some DOWN
      else if key = ''a'' then Some LEFT
      else if key = ''d'' then Some RIGHT
      else None)"

text \<open>\<^verbatim>\<open>oppositeDirections\<close> (lines 95-100).\<close>

fun oppositeDirections :: "Direction \<Rightarrow> Direction" where
  "oppositeDirections UP = DOWN"
| "oppositeDirections DOWN = UP"
| "oppositeDirections LEFT = RIGHT"
| "oppositeDirections RIGHT = LEFT"

text \<open>
  \<^verbatim>\<open>handleKeyPress\<close> (lines 56-106), on \<^verbatim>\<open>e.key\<close>. The branches are in the order of the
  source. The restart branch places food against \<^verbatim>\<open>INITIAL_SNAKE\<close>, so the handler returns
  only if that loop does.
\<close>

definition handleKeyPress :: "rng \<Rightarrow> string \<Rightarrow> game \<Rightarrow> game option" where
  "handleKeyPress rnd key s =
     (if \<not> gameStarted s \<and> key \<noteq> '' '' then Some s
      else if key = '' '' then
        (if gameOver s then
           (case placeFood rnd INITIAL_SNAKE (drawn s) of
              None \<Rightarrow> None
            | Some (newFood, i) \<Rightarrow>
                Some (s\<lparr>snake := INITIAL_SNAKE, direction := INITIAL_DIRECTION,
                        gameOver := False, score := 0, isPaused := False,
                        gameStarted := True, food := newFood, drawn := i\<rparr>))
         else Some (s\<lparr>isPaused := \<not> isPaused s\<rparr>))
      else if isPaused s \<or> gameOver s then Some s
      else
        (case keyMap key of
           None \<Rightarrow> Some s
         | Some newDirection \<Rightarrow>
             if newDirection \<noteq> oppositeDirections (direction s)
             then Some (s\<lparr>direction := newDirection\<rparr>)
             else Some s))"

subsection \<open>The game loop\<close>

text \<open>The \<^verbatim>\<open>switch\<close> of lines 128-141 on a copy of the head.\<close>

fun moveHead :: "Direction \<Rightarrow> Position \<Rightarrow> Position" where
  "moveHead UP head = head\<lparr>y := y head - 1\<rparr>"
| "moveHead DOWN head = head\<lparr>y := y head + 1\<rparr>"
| "moveHead LEFT head = head\<lparr>x := x head - 1\<rparr>"
| "moveHead RIGHT head = head\<lparr>x := x head + 1\<rparr>"

text \<open>The wall check of lines 144-149.\<close>

definition wallCollision :: "Position \<Rightarrow> bool" where
  "wallCollision head \<longleftrightarrow>
     x head < 0 \<or> x head \<ge> GRID_SIZE \<or> y head < 0 \<or> y head \<ge> GRID_SIZE"

text \<open>The self check of line 155.\<close>

definition selfCollision :: "Position \<Rightarrow> Position list \<Rightarrow> bool" where
  "selfCollision head prevSnake \<longleftrightarrow>
     list_ex (\<lambda>segment. x segment = x head \<and> y segment = y head) prevSnake"

text \<open>
  The interval callback (lines 123-179), with the updater passed to \<^verbatim>\<open>setSnake\<close> run once
  for each firing of the interval, on the state of that moment. With an empty \<^verbatim>\<open>prevSnake\<close> the source copies
  \<^verbatim>\<open>undefined\<close> to an empty object, every comparison of the checks is false, and the one
  element of \<^verbatim>\<open>newSnake\<close> is popped again: the snake stays empty and nothing else is set.
  \<^verbatim>\<open>newSnake.pop()\<close> removes the last element, which is \<^const>\<open>butlast\<close>.
\<close>

definition tick :: "rng \<Rightarrow> game \<Rightarrow> game option" where
  "tick rnd s =
     (case snake s of
        [] \<Rightarrow> Some s
      | first # _ \<Rightarrow>
          (let head = moveHead (direction s) first in
           if wallCollision head then Some (s\<lparr>gameOver := True\<rparr>)
           else if selfCollision head (snake s) then Some (s\<lparr>gameOver := True\<rparr>)
           else
             (let newSnake = head # snake s in
              if x head = x (food s) \<and> y head = y (food s) then
                (case placeFood rnd newSnake (drawn s) of
                   None \<Rightarrow> None
                 | Some (newFood, i) \<Rightarrow>
                     Some (s\<lparr>score := score s + 10, food := newFood, drawn := i,
                             snake := newSnake\<rparr>))
              else Some (s\<lparr>snake := butlast newSnake\<rparr>))))"

text \<open>
  The interval exists only while \<^verbatim>\<open>gameStarted && !isPaused && !gameOver\<close> (line 114).
\<close>

definition loopRuns :: "game \<Rightarrow> bool" where
  "loopRuns s \<longleftrightarrow> \<not> (\<not> gameStarted s \<or> isPaused s \<or> gameOver s)"

subsection \<open>Reachable states\<close>

text \<open>
  The states the component can be in, for a given random source: the first render, the
  state after the mount effect, and from there any key event, a click on the start button
  (in the document only while \<^verbatim>\<open>!gameStarted\<close>, line 219), and a tick while the interval
  exists.
\<close>

inductive reachable :: "rng \<Rightarrow> game \<Rightarrow> bool" for rnd :: rng where
  first_render: "reachable rnd initialGame"
| mounted: "mountEffect rnd initialGame = Some s \<Longrightarrow> reachable rnd s"
| key_event: "reachable rnd s \<Longrightarrow> handleKeyPress rnd key s = Some s' \<Longrightarrow> reachable rnd s'"
| start_click: "reachable rnd s \<Longrightarrow> \<not> gameStarted s \<Longrightarrow> reachable rnd (startGame s)"
| interval_tick: "reachable rnd s \<Longrightarrow> loopRuns s \<Longrightarrow> tick rnd s = Some s' \<Longrightarrow> reachable rnd s'"

subsection \<open>Concrete runs\<close>

text \<open>
  The \<open>k\<close>-th position that the placement loop draws when the cursor of the random source
  is at \<open>i\<close> (each draw takes two numbers).
\<close>

definition nthDraw :: "rng \<Rightarrow> nat \<Rightarrow> nat \<Rightarrow> Position" where
  "nthDraw rnd i k = fst (generateFood rnd (i + 2 * k))"

text \<open>
  A source that returns 0.5 twice and 0.75 from then on: its first draw is the cell
  (10, 10), under the initial snake, and its later draws are the cell (15, 15). And a
  source that returns 0.5 at every call, as a stub of \<^verbatim>\<open>Math.random\<close> does: it draws
  (10, 10) for ever.
\<close>

definition rndA :: rng where
  "rndA i = (if i < 2 then \<lparr>mant = 1, expo = - 1\<rparr> else \<lparr>mant = 3, expo = - 2\<rparr>)"


text \<open>
  A source that returns 0.5, then 0.46875, then 0.75 from then on: its first draw is the
  cell (10, 9), just above the head of the initial snake, and its later draws are the cell
  (15, 15).
\<close>

definition rndB :: rng where
  "rndB i =
     (if i = 0 then \<lparr>mant = 1, expo = - 1\<rparr>
      else if i = 1 then \<lparr>mant = 15, expo = - 5\<rparr>
      else \<lparr>mant = 3, expo = - 2\<rparr>)"

text \<open>
  A source that begins as \<open>rndB\<close> and then returns 0.5 and 0.44999999999999996 in turn.
  The exact product of the second with 20 is below 9, and the double product is 9: every
  later draw is the cell (10, 9) again.
\<close>

definition rndD :: rng where
  "rndD i =
     (if i = 0 then \<lparr>mant = 1, expo = - 1\<rparr>
      else if i = 1 then \<lparr>mant = 15, expo = - 5\<rparr>
      else if even i then \<lparr>mant = 1, expo = - 1\<rparr>
      else \<lparr>mant = 2026619832316723, expo = - 52\<rparr>)"

text \<open>
  The run with \<open>rndA\<close>: the state after the mount effect, after a click on the start
  button, and after the first tick, which moves the snake up by one cell.
\<close>

definition mountedA :: game where
  "mountedA = initialGame\<lparr>food := \<lparr>x = 15, y = 15\<rparr>, drawn := 4\<rparr>"

definition runningA :: game where
  "runningA = startGame mountedA"

definition movedA :: game where
  "movedA = runningA\<lparr>snake := [\<lparr>x = 10, y = 9\<rparr>, \<lparr>x = 10, y = 10\<rparr>, \<lparr>x = 10, y = 11\<rparr>]\<rparr>"

text \<open>
  The run with \<open>rndB\<close>: the food lies where the first tick takes the head, so that tick
  eats it.
\<close>

definition mountedB :: game where
  "mountedB = initialGame\<lparr>food := \<lparr>x = 10, y = 9\<rparr>, drawn := 2\<rparr>"

definition runningB :: game where
  "runningB = startGame mountedB"

definition fedB :: game where
  "fedB = runningB\<lparr>score := 10, food := \<lparr>x = 15, y = 15\<rparr>, drawn := 4,
            snake := [\<lparr>x = 10, y = 9\<rparr>, \<lparr>x = 10, y = 10\<rparr>, \<lparr>x = 10, y = 11\<rparr>, \<lparr>x = 10, y = 12\<rparr>]\<rparr>"

text \<open>
  Two running states: a snake whose head is at the left wall and heads left, and a snake
  of four cells in a square that heads down, onto the cell of its tail.
\<close>

definition atWall :: game where
  "atWall =
     \<lparr>snake = [\<lparr>x = 0, y = 5\<rparr>, \<lparr>x = 1, y = 5\<rparr>, \<lparr>x = 2, y = 5\<rparr>], food = \<lparr>x = 15, y = 15\<rparr>,
      gameOver = False, score = 0, isPaused = False, gameStarted = True, direction = LEFT,
      drawn = 4\<rparr>"

definition coiled :: game where
  "coiled =
     \<lparr>snake = [\<lparr>x = 5, y = 5\<rparr>, \<lparr>x = 6, y = 5\<rparr>, \<lparr>x = 6, y = 6\<rparr>, \<lparr>x = 5, y = 6\<rparr>],
      food = \<lparr>x = 15, y = 15\<rparr>, gameOver = False, score = 10, isPaused = False,
      gameStarted = True, direction = DOWN, drawn = 6\<rparr>"

subsection \<open>The invariant of the reachable states\<close>

text \<open>
  The snake is not empty, has no cell twice and lies in the grid; the food is not under
  the snake; and the game is over only after it was started.
\<close>

definition snakeOk :: "game \<Rightarrow> bool" where
  "snakeOk s \<longleftrightarrow>
     snake s \<noteq> [] \<and> distinct (snake s) \<and> (\<forall>p \<in> set (snake s). \<not> wallCollision p) \<and>
     food s \<notin> set (snake s) \<and> (gameOver s \<longrightarrow> gameStarted s)"

section \<open>Doubles\<close>

declare bitLength.simps [simp del]

text \<open>
  The model on four doubles whose exact product with 20 is just below a whole number and
  is rounded up to it: 0.95, 0.7, 0.6 and 0.44999999999999996.
\<close>

lemma floor_times_rounded_up:
  "floorDouble (timesDouble \<lparr>mant = 4278419646001971, expo = - 52\<rparr> 20) = 19"
  "floorDouble (timesDouble \<lparr>mant = 3152519739159347, expo = - 52\<rparr> 20) = 14"
  "floorDouble (timesDouble \<lparr>mant = 5404319552844595, expo = - 53\<rparr> 20) = 12"
  "floorDouble (timesDouble \<lparr>mant = 2026619832316723, expo = - 52\<rparr> 20) = 9"
  by (simp_all add: floorDouble_def timesDouble_def roundToDouble_def bitLength.simps Let_def)

text \<open>A value of at most 53 digits is a double and is not rounded.\<close>

lemma bitLength_le: "n < 2 ^ b \<Longrightarrow> bitLength n \<le> b"
proof (induction b arbitrary: n)
  case 0
  then show ?case by (simp add: bitLength.simps)
next
  case (Suc b)
  show ?case
  proof (cases "n = 0")
    case True
    then show ?thesis by (simp add: bitLength.simps)
  next
    case False
    from Suc.prems have "n div 2 < 2 ^ b" by auto
    from Suc.IH[OF this] False show ?thesis
      by (subst bitLength.simps) simp
  qed
qed

lemma bitLength_ge: "bitLength n = Suc b \<Longrightarrow> 2 ^ b \<le> n"
proof (induction b arbitrary: n)
  case 0
  then show ?case by (cases "n = 0") (simp_all add: bitLength.simps)
next
  case (Suc b)
  have nz: "n \<noteq> 0"
  proof
    assume "n = 0"
    then have "bitLength n = 0" by (simp add: bitLength.simps)
    with Suc.prems show False by simp
  qed
  with Suc.prems have "bitLength (n div 2) = Suc b"
    by (subst (asm) bitLength.simps) simp
  from Suc.IH[OF this] have "2 ^ b \<le> n div 2" .
  then show ?case by auto
qed

text \<open>
  Rounding a number that is at least 20 below \<open>T * 2\<^sup>k\<close> at its \<open>k \<le> 5\<close> lowest digits stays
  below \<open>T\<close>.
\<close>

lemma round_up_less:
  fixes M T k :: nat
  assumes "k \<le> 5" "M + 20 \<le> T * 2 ^ k"
  shows "(if 2 ^ k < 2 * (M mod 2 ^ k) \<or> (2 * (M mod 2 ^ k) = 2 ^ k \<and> odd (M div 2 ^ k))
          then M div 2 ^ k + 1 else M div 2 ^ k) < T"
proof -
  define P :: nat where "P = 2 ^ k"
  define q where "q = M div P"
  define r where "r = M mod P"
  have M_eq: "M = q * P + r"
    by (simp add: q_def r_def)
  have "P \<le> 2 ^ 5"
    unfolding P_def using assms(1) by (rule power_increasing) simp
  then have P_le: "P \<le> 32" by simp
  have bound: "q * P + r + 20 \<le> T * P"
    using assms(2) M_eq by (simp add: P_def)
  then have "q * P < T * P" by linarith
  then have q_less: "q < T" by simp
  have up: "q + 1 < T" if "P \<le> 2 * r"
  proof (rule ccontr)
    assume "\<not> q + 1 < T"
    then have "T \<le> q + 1" by simp
    then have "T * P \<le> (q + 1) * P" by (rule mult_le_mono1)
    then have "T * P \<le> q * P + P" by simp
    with bound have "r + 20 \<le> P" by linarith
    with that P_le show False by linarith
  qed
  show ?thesis
    unfolding P_def[symmetric] q_def[symmetric] r_def[symmetric]
    using q_less up by auto
qed

text \<open>
  For a double of the unit interval, the floor of its rounded product with 20 is one of
  0, ..., 19. The exact product is below 20, and the rounding cannot reach 20: the product
  has at most five digits too many, and it stays at least 20 units of the last digit of
  the factor below 20.
\<close>

lemma floor_times_in_grid:
  assumes "mant d < 2 ^ 53" "expo d < 0" "mant d < 2 ^ nat (- expo d)"
  shows "0 \<le> floorDouble (timesDouble d 20) \<and> floorDouble (timesDouble d 20) < 20"
proof -
  define a where "a = nat (- expo d)"
  define M where "M = mant d * 20"
  define k where "k = bitLength M - 53"
  define m' where "m' = (if 2 ^ k < 2 * (M mod 2 ^ k) \<or> (2 * (M mod 2 ^ k) = 2 ^ k \<and> odd (M div 2 ^ k))
          then M div 2 ^ k + 1 else M div 2 ^ k)"
  have res: "timesDouble d 20 = \<lparr>mant = m', expo = expo d + int k\<rparr>"
    by (simp add: timesDouble_def roundToDouble_def Let_def m'_def k_def M_def)
  have e: "expo d = - int a" and a1: "1 \<le> a"
    using assms(2) by (simp_all add: a_def)
  have M_lt: "M + 20 \<le> 20 * 2 ^ a"
    using assms(3) by (simp add: M_def a_def)
  have "M < 2 ^ 58"
    using assms(1) by (simp add: M_def)
  then have "bitLength M \<le> 58" by (rule bitLength_le)
  then have k5: "k \<le> 5" by (simp add: k_def)
  show ?thesis
  proof (cases "bitLength M \<le> 53")
    case True
    then have "k = 0" by (simp add: k_def)
    then have "m' = M" by (simp add: m'_def)
    with res \<open>k = 0\<close> e a1 have "floorDouble (timesDouble d 20) = int (M div 2 ^ a)"
      by (simp add: floorDouble_def)
    moreover from M_lt have "M < 20 * 2 ^ a" by simp
    then have "M div 2 ^ a < 20" by (rule less_mult_imp_div_less)
    ultimately show ?thesis by simp
  next
    case False
    then have "bitLength M = Suc (52 + k)" by (simp add: k_def)
    then have "2 ^ (52 + k) \<le> M" by (rule bitLength_ge)
    also have "M < 20 * 2 ^ a" using M_lt by simp
    also have "\<dots> < (2::nat) ^ 5 * 2 ^ a" by simp
    finally have "(2::nat) ^ (52 + k) < 2 ^ (5 + a)" by (simp add: power_add)
    then have "52 + k < 5 + a" by simp
    then have ka: "k < a" by simp
    define T :: nat where "T = 20 * 2 ^ (a - k)"
    have "(2::nat) ^ a = 2 ^ (a - k) * 2 ^ k"
      using ka by (simp flip: power_add)
    with M_lt have "M + 20 \<le> T * 2 ^ k" by (simp add: T_def)
    from round_up_less[OF k5 this] have "m' < 20 * 2 ^ (a - k)"
      by (simp add: m'_def T_def)
    then have "m' div 2 ^ (a - k) < 20" by (rule less_mult_imp_div_less)
    moreover from ka e have "expo d + int k < 0" and "nat (- (expo d + int k)) = a - k"
      by simp_all
    with res have "floorDouble (timesDouble d 20) = int (m' div 2 ^ (a - k))"
      by (simp add: floorDouble_def)
    ultimately show ?thesis by simp
  qed
qed

lemma roundToDouble_exact:
  "m < 2 ^ 53 \<Longrightarrow> roundToDouble m e = \<lparr>mant = m, expo = e\<rparr>"
  using bitLength_le[of m 53] by (simp add: roundToDouble_def)

text \<open>
  The rounded significand, scaled back, is within half a unit of the last place of the
  exact value.
\<close>

lemma roundToDouble_nearest:
  fixes m :: nat
  defines "k \<equiv> bitLength m - 53"
  shows "2 * (mant (roundToDouble m e) * 2 ^ k - m) \<le> 2 ^ k \<and>
         2 * (m - mant (roundToDouble m e) * 2 ^ k) \<le> 2 ^ k \<and>
         expo (roundToDouble m e) = e + int k"
proof -
  define P :: nat where "P = 2 ^ k"
  define q where "q = m div P"
  define r where "r = m mod P"
  have m_eq: "m = q * P + r"
    using div_mult_mod_eq[of m P] by (simp add: q_def r_def)
  have rP: "r < P"
    by (simp add: r_def P_def)
  have res: "mant (roundToDouble m e) = (if P < 2 * r \<or> (2 * r = P \<and> odd q) then q + 1 else q)"
    by (simp add: roundToDouble_def Let_def k_def P_def q_def r_def)
  have "2 * ((q + 1) * P - m) \<le> P" if "P \<le> 2 * r"
  proof -
    have "(q + 1) * P - m = P - r" using m_eq rP by (simp add: algebra_simps)
    with that show ?thesis by simp
  qed
  moreover have "2 * (m - (q + 1) * P) \<le> P"
  proof -
    have "m \<le> (q + 1) * P" using m_eq rP by (simp add: algebra_simps)
    then show ?thesis by simp
  qed
  moreover have "2 * (q * P - m) \<le> P"
    using m_eq by simp
  moreover have "2 * (m - q * P) \<le> P" if "2 * r \<le> P"
    using m_eq that by simp
  ultimately have "2 * (mant (roundToDouble m e) * P - m) \<le> P \<and>
      2 * (m - mant (roundToDouble m e) * P) \<le> P"
    unfolding res by (cases "P < 2 * r \<or> (2 * r = P \<and> odd q)") auto
  then show ?thesis
    by (simp add: P_def roundToDouble_def Let_def k_def)
qed

section \<open>Food placement\<close>

lemma Position_eq_iff: "(x p = x q \<and> y p = y q) \<longleftrightarrow> p = (q::Position)"
  by auto

lemma isValidFoodPosition_iff: "isValidFoodPosition pos snakeBody \<longleftrightarrow> pos \<notin> set snakeBody"
  unfolding isValidFoodPosition_def list_ex_iff by (metis Position_eq_iff)

lemma selfCollision_iff: "selfCollision head prevSnake \<longleftrightarrow> head \<in> set prevSnake"
  unfolding selfCollision_def list_ex_iff by (metis Position_eq_iff)

lemma snd_generateFood: "snd (generateFood rnd i) = i + 2"
  by (simp add: generateFood_def)

text \<open>Whatever the loop returns passed the test that ends it.\<close>

lemma foodLoop_Some_valid:
  assumes "foodLoop rnd body p i = Some r"
  shows "isValidFoodPosition (fst r) body"
  by (rule foodLoop.raw_induct
        [where P = "\<lambda>rnd body p i r. isValidFoodPosition (fst r) body", OF _ assms])
     (auto split: if_splits)

text \<open>The loop returns the position it was entered with, or one of the later draws.\<close>

lemma foodLoop_Some_origin:
  assumes "foodLoop rnd body p i = Some r"
  shows "r = (p, i) \<or> (\<exists>k. fst r = nthDraw rnd i k \<and> snd r = i + 2 * k + 2)"
proof (rule foodLoop.raw_induct
    [where P = "\<lambda>rnd body p i r.
       r = (p, i) \<or> (\<exists>k. fst r = nthDraw rnd i k \<and> snd r = i + 2 * k + 2)", OF _ assms])
  fix f rnd body p i r
  assume IH: "\<And>rnd body p i r. f rnd body p i = Some r \<Longrightarrow>
      r = (p, i) \<or> (\<exists>k. fst r = nthDraw rnd i k \<and> snd r = i + 2 * k + 2)"
    and step: "(if \<not> isValidFoodPosition p body
                then f rnd body (fst (generateFood rnd i)) (snd (generateFood rnd i))
                else Some (p, i)) = Some r"
  show "r = (p, i) \<or> (\<exists>k. fst r = nthDraw rnd i k \<and> snd r = i + 2 * k + 2)"
  proof (cases "isValidFoodPosition p body")
    case True
    with step show ?thesis by simp
  next
    case False
    with step have "f rnd body (fst (generateFood rnd i)) (i + 2) = Some r"
      by (simp add: snd_generateFood)
    from IH[OF this] show ?thesis
    proof
      assume "r = (fst (generateFood rnd i), i + 2)"
      then have "fst r = nthDraw rnd i 0 \<and> snd r = i + 2 * 0 + 2"
        by (simp add: nthDraw_def)
      then show ?thesis by blast
    next
      assume "\<exists>k. fst r = nthDraw rnd (i + 2) k \<and> snd r = i + 2 + 2 * k + 2"
      then obtain k where "fst r = nthDraw rnd (i + 2) k" "snd r = i + 2 + 2 * k + 2"
        by blast
      then have "fst r = nthDraw rnd i (Suc k) \<and> snd r = i + 2 * Suc k + 2"
        by (simp add: nthDraw_def add.assoc)
      then show ?thesis by blast
    qed
  qed
qed

lemma placeFood_Some_valid:
  "placeFood rnd body i = Some r \<Longrightarrow> isValidFoodPosition (fst r) body"
  unfolding placeFood_def by (rule foodLoop_Some_valid)

lemma placeFood_Some_origin:
  assumes "placeFood rnd body i = Some r"
  shows "\<exists>k. fst r = nthDraw rnd i k \<and> snd r = i + 2 * k + 2"
proof -
  from assms have r: "foodLoop rnd body (fst (generateFood rnd i)) (i + 2) = Some r"
    by (simp add: placeFood_def snd_generateFood)
  from foodLoop_Some_origin[OF r] show ?thesis
  proof
    assume "r = (fst (generateFood rnd i), i + 2)"
    then have "fst r = nthDraw rnd i 0 \<and> snd r = i + 2 * 0 + 2"
      by (simp add: nthDraw_def)
    then show ?thesis by blast
  next
    assume "\<exists>k. fst r = nthDraw rnd (i + 2) k \<and> snd r = i + 2 + 2 * k + 2"
    then obtain k where "fst r = nthDraw rnd (i + 2) k" "snd r = i + 2 + 2 * k + 2"
      by blast
    then have "fst r = nthDraw rnd i (Suc k) \<and> snd r = i + 2 * Suc k + 2"
      by (simp add: nthDraw_def add.assoc)
    then show ?thesis by blast
  qed
qed

text \<open>
  Entered with a position on the snake, the loop returns the first later draw that is off
  the snake.
\<close>

lemma foodLoop_first_free:
  "\<not> isValidFoodPosition p body \<Longrightarrow>
   isValidFoodPosition (nthDraw rnd i k) body \<Longrightarrow>
   (\<And>j. j < k \<Longrightarrow> \<not> isValidFoodPosition (nthDraw rnd i j) body) \<Longrightarrow>
   foodLoop rnd body p i = Some (nthDraw rnd i k, i + 2 * k + 2)"
proof (induction k arbitrary: p i)
  case 0
  then have v: "isValidFoodPosition (fst (generateFood rnd i)) body"
    by (simp add: nthDraw_def)
  have "foodLoop rnd body p i = foodLoop rnd body (fst (generateFood rnd i)) (i + 2)"
    using "0.prems"(1) by (subst foodLoop.simps) (simp add: snd_generateFood)
  also have "\<dots> = Some (fst (generateFood rnd i), i + 2)"
    using v by (subst foodLoop.simps) simp
  finally show ?case by (simp add: nthDraw_def)
next
  case (Suc k)
  have nv: "\<not> isValidFoodPosition (fst (generateFood rnd i)) body"
    using Suc.prems(3)[of 0] by (simp add: nthDraw_def)
  have shift: "nthDraw rnd (i + 2) j = nthDraw rnd i (Suc j)" for j
    by (simp add: nthDraw_def add.assoc)
  have "foodLoop rnd body p i = foodLoop rnd body (fst (generateFood rnd i)) (i + 2)"
    using Suc.prems(1) by (subst foodLoop.simps) (simp add: snd_generateFood)
  also have "\<dots> = Some (nthDraw rnd (i + 2) k, i + 2 + 2 * k + 2)"
  proof (rule Suc.IH[OF nv])
    show "isValidFoodPosition (nthDraw rnd (i + 2) k) body"
      using Suc.prems(2) unfolding shift .
    show "\<not> isValidFoodPosition (nthDraw rnd (i + 2) j) body" if "j < k" for j
      using Suc.prems(3)[of "Suc j"] that unfolding shift by simp
  qed
  finally show ?case unfolding shift by simp
qed

lemma placeFood_first_free:
  assumes "isValidFoodPosition (nthDraw rnd i k) body"
    and "\<And>j. j < k \<Longrightarrow> \<not> isValidFoodPosition (nthDraw rnd i j) body"
  shows "placeFood rnd body i = Some (nthDraw rnd i k, i + 2 * k + 2)"
proof (cases k)
  case 0
  with assms(1) show ?thesis
    by (simp add: placeFood_def nthDraw_def snd_generateFood foodLoop.simps)
next
  case (Suc n)
  have shift: "nthDraw rnd (i + 2) j = nthDraw rnd i (Suc j)" for j
    by (simp add: nthDraw_def add.assoc)
  have nv: "\<not> isValidFoodPosition (fst (generateFood rnd i)) body"
    using assms(2)[of 0] Suc by (simp add: nthDraw_def)
  have "foodLoop rnd body (fst (generateFood rnd i)) (i + 2)
        = Some (nthDraw rnd (i + 2) n, i + 2 + 2 * n + 2)"
  proof (rule foodLoop_first_free[OF nv])
    show "isValidFoodPosition (nthDraw rnd (i + 2) n) body"
      using assms(1) unfolding shift Suc .
    show "\<not> isValidFoodPosition (nthDraw rnd (i + 2) j) body" if "j < n" for j
      using assms(2)[of "Suc j"] that unfolding shift Suc by simp
  qed
  then show ?thesis
    unfolding shift by (simp add: placeFood_def snd_generateFood Suc)
qed

text \<open>The placement returns exactly when some draw is off the snake.\<close>

lemma placeFood_returns_iff:
  "(\<exists>r. placeFood rnd body i = Some r) \<longleftrightarrow> (\<exists>k. isValidFoodPosition (nthDraw rnd i k) body)"
proof
  assume "\<exists>r. placeFood rnd body i = Some r"
  then obtain r where r: "placeFood rnd body i = Some r" ..
  from placeFood_Some_origin[OF r] obtain k where "fst r = nthDraw rnd i k" by blast
  with placeFood_Some_valid[OF r] show "\<exists>k. isValidFoodPosition (nthDraw rnd i k) body"
    by auto
next
  assume ex: "\<exists>k. isValidFoodPosition (nthDraw rnd i k) body"
  define k where "k = (LEAST k. isValidFoodPosition (nthDraw rnd i k) body)"
  have "isValidFoodPosition (nthDraw rnd i k) body"
    unfolding k_def using ex by (rule LeastI_ex)
  moreover have "\<not> isValidFoodPosition (nthDraw rnd i j) body" if "j < k" for j
    using that unfolding k_def by (rule not_less_Least)
  ultimately have "placeFood rnd body i = Some (nthDraw rnd i k, i + 2 * k + 2)"
    by (rule placeFood_first_free)
  then show "\<exists>r. placeFood rnd body i = Some r" ..
qed

text \<open>A draw from a source of numbers in the unit interval lies in the grid.\<close>

lemma generateFood_in_grid:
  assumes "unit_source rnd"
  shows "0 \<le> x (fst (generateFood rnd i)) \<and> x (fst (generateFood rnd i)) < GRID_SIZE \<and>
         0 \<le> y (fst (generateFood rnd i)) \<and> y (fst (generateFood rnd i)) < GRID_SIZE"
proof -
  have cell: "0 \<le> floorDouble (timesDouble (rnd j) 20) \<and>
      floorDouble (timesDouble (rnd j) 20) < 20" for j
    using assms by (intro floor_times_in_grid) (simp_all add: unit_source_def)
  from cell[of i] cell[of "i + 1"] show ?thesis
    by (simp add: generateFood_def GRID_SIZE_def)
qed

text \<open>The cells of the three doubles that the concrete sources return.\<close>

lemma cell_of_doubles:
  "floorDouble (timesDouble \<lparr>mant = 1, expo = - 1\<rparr> (nat GRID_SIZE)) = 10"
  "floorDouble (timesDouble \<lparr>mant = 3, expo = - 2\<rparr> (nat GRID_SIZE)) = 15"
  "floorDouble (timesDouble \<lparr>mant = 15, expo = - 5\<rparr> (nat GRID_SIZE)) = 9"
  by (simp_all add: floorDouble_def timesDouble_def roundToDouble_def bitLength.simps Let_def
      GRID_SIZE_def)

lemma rndA_draws:
  "generateFood rndA 0 = (\<lparr>x = 10, y = 10\<rparr>, 2)"
  "2 \<le> i \<Longrightarrow> generateFood rndA i = (\<lparr>x = 15, y = 15\<rparr>, i + 2)"
  by (simp_all add: generateFood_def rndA_def cell_of_doubles del: One_nat_def)

lemma rndB_draws:
  "generateFood rndB 0 = (\<lparr>x = 10, y = 9\<rparr>, 2)"
  "2 \<le> i \<Longrightarrow> generateFood rndB i = (\<lparr>x = 15, y = 15\<rparr>, i + 2)"
  by (simp_all add: generateFood_def rndB_def cell_of_doubles del: One_nat_def)


lemma rndA_unit: "unit_source rndA"
  by (simp add: unit_source_def rndA_def)


lemma placeFood_rndA: "placeFood rndA INITIAL_SNAKE 0 = Some (\<lparr>x = 15, y = 15\<rparr>, 4)"
  by (simp add: placeFood_def foodLoop.simps rndA_draws INITIAL_SNAKE_def
      isValidFoodPosition_def)

text \<open>
  Claim C6. Whenever food placement returns a position, that position is not a member of
  the occupied positions and both its coordinates lie in \<open>[0, GRID_SIZE)\<close>. The random
  source gives doubles that are at least 0 and less than 1, as \<^verbatim>\<open>Math.random()\<close> does, and
  the coordinates are the floors of their rounded double products with \<^verbatim>\<open>GRID_SIZE\<close>; the
  occupied positions are any list, also one that leaves a free cell.
\<close>

theorem placeFood_free_and_in_grid:
  assumes "unit_source rnd" and "placeFood rnd occupied i = Some (pos, j)"
  shows "pos \<notin> set occupied \<and> isValidFoodPosition pos occupied \<and>
         0 \<le> x pos \<and> x pos < GRID_SIZE \<and> 0 \<le> y pos \<and> y pos < GRID_SIZE"
proof -
  from placeFood_Some_valid[OF assms(2)] have v: "isValidFoodPosition pos occupied"
    by simp
  from placeFood_Some_origin[OF assms(2)] obtain k where "pos = nthDraw rnd i k"
    by auto
  then have "pos = fst (generateFood rnd (i + 2 * k))"
    by (simp add: nthDraw_def)
  with generateFood_in_grid[OF assms(1), of "i + 2 * k"] v show ?thesis
    by (simp add: isValidFoodPosition_iff)
qed

text \<open>
  Witness for C6: against the initial snake, the source \<open>rndA\<close> draws (10, 10), which is
  rejected, and then (15, 15), which is returned.
\<close>

theorem placeFood_free_and_in_grid_witness:
  "unit_source rndA \<and> placeFood rndA INITIAL_SNAKE 0 = Some (\<lparr>x = 15, y = 15\<rparr>, 4) \<and>
   \<lparr>x = 15, y = 15\<rparr> \<notin> set INITIAL_SNAKE \<and> isValidFoodPosition \<lparr>x = 15, y = 15\<rparr> INITIAL_SNAKE \<and>
   0 \<le> x \<lparr>x = 15, y = 15\<rparr> \<and> x \<lparr>x = 15, y = 15\<rparr> < GRID_SIZE \<and>
   0 \<le> y \<lparr>x = 15, y = 15\<rparr> \<and> y \<lparr>x = 15, y = 15\<rparr> < GRID_SIZE"
  using placeFood_free_and_in_grid[OF rndA_unit placeFood_rndA] rndA_unit placeFood_rndA
  by blast

text \<open>With a source that never draws a free cell the placement never returns.\<close>

lemma placeFood_never_free:
  assumes "\<And>k. nthDraw rnd i k \<in> set occupied"
  shows "placeFood rnd occupied i = None"
proof (cases "placeFood rnd occupied i")
  case None
  then show ?thesis .
next
  case (Some r)
  then have "\<exists>k. isValidFoodPosition (nthDraw rnd i k) occupied"
    using placeFood_returns_iff[of rnd occupied i] by blast
  with assms show ?thesis by (simp add: isValidFoodPosition_iff)
qed




section \<open>The tick and the invariant\<close>

lemma tick_collision:
  assumes "snake s = first # rest"
    and "wallCollision (moveHead (direction s) first) \<or> moveHead (direction s) first \<in> set (snake s)"
  shows "tick rnd s = Some (s\<lparr>gameOver := True\<rparr>)"
  using assms by (auto simp: tick_def Let_def selfCollision_iff)

lemma tick_move:
  assumes "snake s = first # rest"
    and "\<not> wallCollision (moveHead (direction s) first)"
    and "moveHead (direction s) first \<notin> set (snake s)"
    and "moveHead (direction s) first \<noteq> food s"
  shows "tick rnd s = Some (s\<lparr>snake := moveHead (direction s) first # butlast (snake s)\<rparr>)"
proof -
  from assms(4) have "\<not> (x (moveHead (direction s) first) = x (food s) \<and> y (moveHead (direction s) first) = y (food s))"
    by (simp add: Position_eq_iff)
  with assms(1-3) show ?thesis
    by (auto simp: tick_def Let_def selfCollision_iff)
qed

lemma tick_eat:
  assumes "snake s = first # rest"
    and "\<not> wallCollision (moveHead (direction s) first)"
    and "moveHead (direction s) first \<notin> set (snake s)"
    and "moveHead (direction s) first = food s"
  shows "tick rnd s =
     (case placeFood rnd (food s # snake s) (drawn s) of
        None \<Rightarrow> None
      | Some (newFood, i) \<Rightarrow>
          Some (s\<lparr>score := score s + 10, food := newFood, drawn := i, snake := food s # snake s\<rparr>))"
proof -
  from assms(1-3) have
    "tick rnd s = (let head = moveHead (direction s) first; newSnake = head # snake s in
              if x head = x (food s) \<and> y head = y (food s) then
                (case placeFood rnd newSnake (drawn s) of
                   None \<Rightarrow> None
                 | Some (newFood, i) \<Rightarrow>
                     Some (s\<lparr>score := score s + 10, food := newFood, drawn := i,
                             snake := newSnake\<rparr>))
              else Some (s\<lparr>snake := butlast newSnake\<rparr>))"
    by (simp add: tick_def Let_def selfCollision_iff)
  then show ?thesis by (simp add: assms(4) Let_def)
qed

lemma snakeOk_initial: "snakeOk initialGame"
  by (simp add: snakeOk_def initialGame_def INITIAL_SNAKE_def wallCollision_def GRID_SIZE_def)

lemma snakeOk_mountEffect:
  assumes "snakeOk s" "mountEffect rnd s = Some s'"
  shows "snakeOk s'"
proof -
  from assms(2) obtain f i where pf: "placeFood rnd (snake s) (drawn s) = Some (f, i)"
    and s': "s' = s\<lparr>food := f, drawn := i\<rparr>"
    by (auto simp: mountEffect_def split: option.splits)
  from placeFood_Some_valid[OF pf] have "f \<notin> set (snake s)"
    by (simp add: isValidFoodPosition_iff)
  with assms(1) show ?thesis by (simp add: snakeOk_def s')
qed

lemma snakeOk_startGame: "snakeOk s \<Longrightarrow> snakeOk (startGame s)"
  by (simp add: snakeOk_def startGame_def)

lemma snakeOk_handleKeyPress:
  assumes "snakeOk s" "handleKeyPress rnd key s = Some s'"
  shows "snakeOk s'"
proof (cases "key = '' '' \<and> gameOver s")
  case True
  with assms(2) obtain f i where pf: "placeFood rnd INITIAL_SNAKE (drawn s) = Some (f, i)"
    and s': "s' = s\<lparr>snake := INITIAL_SNAKE, direction := INITIAL_DIRECTION,
                        gameOver := False, score := 0, isPaused := False,
                        gameStarted := True, food := f, drawn := i\<rparr>"
    by (auto simp: handleKeyPress_def split: option.splits if_splits)
  from placeFood_Some_valid[OF pf] have "f \<notin> set INITIAL_SNAKE"
    by (simp add: isValidFoodPosition_iff)
  then show ?thesis
    using snakeOk_initial by (simp add: snakeOk_def s' initialGame_def)
next
  case False
  with assms(2) have "s' = s \<or> s' = s\<lparr>isPaused := \<not> isPaused s\<rparr> \<or> (\<exists>d. s' = s\<lparr>direction := d\<rparr>)"
    by (auto simp: handleKeyPress_def split: option.splits if_splits)
  with assms(1) show ?thesis by (auto simp: snakeOk_def)
qed

lemma snakeOk_tick:
  assumes "snakeOk s" "tick rnd s = Some s'" "gameStarted s"
  shows "snakeOk s'"
proof -
  from assms(1) obtain first rest where sn: "snake s = first # rest"
    by (cases "snake s") (auto simp: snakeOk_def)
  define head where "head = moveHead (direction s) first"
  consider (coll) "wallCollision head \<or> head \<in> set (snake s)"
    | (move) "\<not> wallCollision head" "head \<notin> set (snake s)" "head \<noteq> food s"
    | (eat) "\<not> wallCollision head" "head \<notin> set (snake s)" "head = food s"
    by blast
  then show ?thesis
  proof cases
    case coll
    from tick_collision[OF sn coll[unfolded head_def]] assms(2)
    have "s' = s\<lparr>gameOver := True\<rparr>" by simp
    then show ?thesis using assms(1,3) by (simp add: snakeOk_def)
  next
    case move
    from tick_move[OF sn move[unfolded head_def]] assms(2)
    have s': "s' = s\<lparr>snake := head # butlast (snake s)\<rparr>" by (simp add: head_def)
    have "set (butlast (snake s)) \<subseteq> set (snake s)"
      by (auto dest: in_set_butlastD)
    moreover have "distinct (butlast (snake s))"
      using assms(1) by (simp add: snakeOk_def distinct_butlast)
    ultimately show ?thesis
      using assms(1) move by (auto simp: snakeOk_def s')
  next
    case eat
    from tick_eat[OF sn eat[unfolded head_def]] assms(2)
    obtain f i where pf: "placeFood rnd (food s # snake s) (drawn s) = Some (f, i)"
      and s': "s' = s\<lparr>score := score s + 10, food := f, drawn := i, snake := food s # snake s\<rparr>"
      by (auto split: option.splits)
    from placeFood_Some_valid[OF pf] have "f \<notin> set (food s # snake s)"
      by (simp add: isValidFoodPosition_iff)
    then show ?thesis
      using assms(1) eat by (auto simp: snakeOk_def s')
  qed
qed

lemma placeFood_in_grid:
  assumes "unit_source rnd" "placeFood rnd body i = Some (f, j)"
  shows "\<not> wallCollision f"
proof -
  from placeFood_Some_origin[OF assms(2)] obtain k where "f = fst (generateFood rnd (i + 2 * k))"
    by (auto simp: nthDraw_def)
  with generateFood_in_grid[OF assms(1), of "i + 2 * k"] show ?thesis
    by (simp add: wallCollision_def)
qed

lemma mountEffect_food:
  "unit_source rnd \<Longrightarrow> mountEffect rnd s = Some s' \<Longrightarrow> \<not> wallCollision (food s')"
  by (auto simp: mountEffect_def split: option.splits dest: placeFood_in_grid)

lemma handleKeyPress_food:
  "unit_source rnd \<Longrightarrow> \<not> wallCollision (food s) \<Longrightarrow> handleKeyPress rnd key s = Some s' \<Longrightarrow>
   \<not> wallCollision (food s')"
  by (auto simp: handleKeyPress_def split: option.splits if_splits dest: placeFood_in_grid)

lemma tick_food:
  "unit_source rnd \<Longrightarrow> \<not> wallCollision (food s) \<Longrightarrow> tick rnd s = Some s' \<Longrightarrow>
   \<not> wallCollision (food s')"
  by (auto simp: tick_def Let_def split: option.splits if_splits list.splits
      dest: placeFood_in_grid)

lemma reachable_snakeOk: "reachable rnd s \<Longrightarrow> snakeOk s"
proof (induction rule: reachable.induct)
  case first_render
  show ?case by (rule snakeOk_initial)
next
  case (mounted s)
  then show ?case using snakeOk_mountEffect[OF snakeOk_initial] by blast
next
  case (key_event s key s')
  then show ?case using snakeOk_handleKeyPress by blast
next
  case (start_click s)
  then show ?case by (simp add: snakeOk_startGame)
next
  case (interval_tick s s')
  then show ?case using snakeOk_tick[of s rnd s'] by (simp add: loopRuns_def)
qed

lemma reachable_food_in_grid:
  assumes "unit_source rnd"
  shows "reachable rnd s \<Longrightarrow> \<not> wallCollision (food s)"
proof (induction rule: reachable.induct)
  case first_render
  show ?case by (simp add: initialGame_def wallCollision_def GRID_SIZE_def)
next
  case (mounted s)
  then show ?case by (rule mountEffect_food[OF assms])
next
  case (key_event s key s')
  from handleKeyPress_food[OF assms key_event.IH key_event.hyps(2)] show ?case .
next
  case (start_click s)
  then show ?case by (simp add: startGame_def)
next
  case (interval_tick s s')
  from tick_food[OF assms interval_tick.IH interval_tick.hyps(3)] show ?case .
qed

lemma gameState_Running_iff: "gameState s = Running \<longleftrightarrow> loopRuns s"
  by (simp add: gameState_def loopRuns_def)

lemma mountEffect_rndA: "mountEffect rndA initialGame = Some mountedA"
  using placeFood_rndA by (simp add: mountEffect_def initialGame_def mountedA_def)

lemma tick_runningA: "tick rndA runningA = Some movedA"
  by (simp add: tick_def runningA_def movedA_def mountedA_def startGame_def initialGame_def
      INITIAL_SNAKE_def INITIAL_DIRECTION_def wallCollision_def selfCollision_def GRID_SIZE_def)

lemma reachable_mountedA: "reachable rndA mountedA"
  by (rule reachable.mounted[OF mountEffect_rndA])

lemma reachable_runningA: "reachable rndA runningA"
  unfolding runningA_def
  by (rule reachable.start_click[OF reachable_mountedA]) (simp add: mountedA_def initialGame_def)

lemma loopRuns_runningA: "loopRuns runningA"
  by (simp add: loopRuns_def runningA_def startGame_def mountedA_def initialGame_def)

lemma reachable_movedA: "reachable rndA movedA"
  by (rule reachable.interval_tick[OF reachable_runningA loopRuns_runningA tick_runningA])

lemma rndB_unit: "unit_source rndB"
  by (simp add: unit_source_def rndB_def)

lemma mountEffect_rndB: "mountEffect rndB initialGame = Some mountedB"
  by (simp add: mountEffect_def initialGame_def mountedB_def placeFood_def foodLoop.simps
      rndB_draws INITIAL_SNAKE_def isValidFoodPosition_def)

lemma reachable_runningB: "reachable rndB runningB"
  unfolding runningB_def
  by (rule reachable.start_click[OF reachable.mounted[OF mountEffect_rndB]])
     (simp add: mountedB_def initialGame_def)

lemma loopRuns_runningB: "loopRuns runningB"
  by (simp add: loopRuns_def runningB_def startGame_def mountedB_def initialGame_def)

lemma tick_runningB: "tick rndB runningB = Some fedB"
  by (simp add: tick_def runningB_def fedB_def mountedB_def startGame_def initialGame_def
      INITIAL_SNAKE_def INITIAL_DIRECTION_def wallCollision_def selfCollision_def GRID_SIZE_def
      placeFood_def foodLoop.simps rndB_draws isValidFoodPosition_def)

text \<open>The tick of a state whose snake is not empty, branch by branch.\<close>

lemma tick_branches:
  assumes "snake s = first # rest" and "head = moveHead (direction s) first"
  shows "tick rnd s =
     (if wallCollision head \<or> head \<in> set (snake s) then Some (s\<lparr>gameOver := True\<rparr>)
      else if head = food s then
        (case placeFood rnd (head # snake s) (drawn s) of
           None \<Rightarrow> None
         | Some (newFood, i) \<Rightarrow>
             Some (s\<lparr>score := score s + 10, food := newFood, drawn := i,
                     snake := head # snake s\<rparr>))
      else Some (s\<lparr>snake := head # butlast (snake s)\<rparr>))"
proof (cases "wallCollision head \<or> head \<in> set (snake s)")
  case True
  then show ?thesis
    using tick_collision[OF assms(1), of rnd] unfolding assms(2) by simp
next
  case False
  then have nw: "\<not> wallCollision (moveHead (direction s) first)"
    and ns: "moveHead (direction s) first \<notin> set (snake s)"
    unfolding assms(2) by simp_all
  show ?thesis
  proof (cases "head = food s")
    case True
    then have at_food: "moveHead (direction s) first = food s" unfolding assms(2) .
    have "tick rnd s =
        (case placeFood rnd (head # snake s) (drawn s) of
           None \<Rightarrow> None
         | Some (newFood, i) \<Rightarrow>
             Some (s\<lparr>score := score s + 10, food := newFood, drawn := i,
                     snake := head # snake s\<rparr>))"
      unfolding True by (rule tick_eat[OF assms(1) nw ns at_food])
    with False True show ?thesis
      by simp
  next
    case nf: False
    then have "moveHead (direction s) first \<noteq> food s" unfolding assms(2) .
    from tick_move[OF assms(1) nw ns this, of rnd] False nf show ?thesis
      unfolding assms(2) by simp
  qed
qed

text \<open>The eating tick, by the draws of the random source.\<close>

lemma tick_eat_draws:
  assumes "snake s = first # rest" and "head = moveHead (direction s) first"
    and "\<not> wallCollision head" and "head \<notin> set (snake s)" and "head = food s"
  shows "nthDraw rnd (drawn s) k \<notin> set (head # snake s) \<Longrightarrow>
         (\<And>j. j < k \<Longrightarrow> nthDraw rnd (drawn s) j \<in> set (head # snake s)) \<Longrightarrow>
         tick rnd s = Some (s\<lparr>score := score s + 10, food := nthDraw rnd (drawn s) k,
                              drawn := drawn s + 2 * k + 2, snake := head # snake s\<rparr>)"
    and "(\<And>k. nthDraw rnd (drawn s) k \<in> set (head # snake s)) \<Longrightarrow> tick rnd s = None"
proof -
  have t: "tick rnd s =
        (case placeFood rnd (head # snake s) (drawn s) of
           None \<Rightarrow> None
         | Some (newFood, i) \<Rightarrow>
             Some (s\<lparr>score := score s + 10, food := newFood, drawn := i,
                     snake := head # snake s\<rparr>))"
    using tick_branches[OF assms(1,2), of rnd] assms(3,4,5) by simp
  show "tick rnd s = Some (s\<lparr>score := score s + 10, food := nthDraw rnd (drawn s) k,
                              drawn := drawn s + 2 * k + 2, snake := head # snake s\<rparr>)"
    if "nthDraw rnd (drawn s) k \<notin> set (head # snake s)"
      and "\<And>j. j < k \<Longrightarrow> nthDraw rnd (drawn s) j \<in> set (head # snake s)"
  proof -
    have v: "isValidFoodPosition (nthDraw rnd (drawn s) k) (head # snake s)"
      using that(1) unfolding isValidFoodPosition_iff .
    have nv: "\<not> isValidFoodPosition (nthDraw rnd (drawn s) j) (head # snake s)" if "j < k" for j
      using \<open>\<And>j. j < k \<Longrightarrow> nthDraw rnd (drawn s) j \<in> set (head # snake s)\<close>[OF that]
      unfolding isValidFoodPosition_iff by blast
    have "placeFood rnd (head # snake s) (drawn s)
          = Some (nthDraw rnd (drawn s) k, drawn s + 2 * k + 2)"
      using v nv by (rule placeFood_first_free)
    then show ?thesis unfolding t by simp
  qed
  show "tick rnd s = None" if "\<And>k. nthDraw rnd (drawn s) k \<in> set (head # snake s)"
    unfolding t using placeFood_never_free[of rnd "drawn s" "head # snake s"] that by simp
qed

text \<open>
  With \<open>rndD\<close> the run begins as with \<open>rndB\<close>, and the first tick, which eats, never
  returns: each draw for the new food is the cell (10, 9) of the new head.
\<close>

lemma rndD_draws:
  "generateFood rndD 0 = (\<lparr>x = 10, y = 9\<rparr>, 2)"
  "generateFood rndD (2 + 2 * k) = (\<lparr>x = 10, y = 9\<rparr>, 2 + 2 * k + 2)"
  by (simp_all add: generateFood_def rndD_def GRID_SIZE_def floorDouble_def timesDouble_def
      roundToDouble_def bitLength.simps Let_def)

lemma rndD_unit: "unit_source rndD"
  by (simp add: unit_source_def rndD_def)

lemma reachable_rndD: "reachable rndD runningB"
proof -
  have "mountEffect rndD initialGame = Some mountedB"
    by (simp add: mountEffect_def initialGame_def mountedB_def placeFood_def foodLoop.simps
        rndD_draws INITIAL_SNAKE_def isValidFoodPosition_def)
  from reachable.start_click[OF reachable.mounted[OF this]] show ?thesis
    by (simp add: runningB_def mountedB_def initialGame_def)
qed

lemma tick_rndD: "tick rndD runningB = None"
proof -
  have sn: "snake runningB = \<lparr>x = 10, y = 10\<rparr> # [\<lparr>x = 10, y = 11\<rparr>, \<lparr>x = 10, y = 12\<rparr>]"
    by (simp add: runningB_def startGame_def mountedB_def initialGame_def INITIAL_SNAKE_def)
  have mv: "\<lparr>x = 10, y = 9\<rparr> = moveHead (direction runningB) \<lparr>x = 10, y = 10\<rparr>"
    by (simp add: runningB_def startGame_def mountedB_def initialGame_def INITIAL_DIRECTION_def)
  have nw: "\<not> wallCollision \<lparr>x = 10, y = 9\<rparr>"
    by (simp add: wallCollision_def GRID_SIZE_def)
  have ns: "\<lparr>x = 10, y = 9\<rparr> \<notin> set (snake runningB)"
    unfolding sn by simp
  have fd: "\<lparr>x = 10, y = 9\<rparr> = food runningB"
    by (simp add: runningB_def startGame_def mountedB_def initialGame_def)
  have dr: "drawn runningB = 2"
    by (simp add: runningB_def startGame_def mountedB_def initialGame_def)
  have "nthDraw rndD (drawn runningB) k \<in> set (\<lparr>x = 10, y = 9\<rparr> # snake runningB)" for k
    unfolding dr nthDraw_def rndD_draws by simp
  then show ?thesis
    by (rule tick_eat_draws(2)[OF sn mv nw ns fd])
qed

section \<open>Collisions and the length of the snake\<close>

text \<open>
  Claim C2. The self-collision check of line 155 holds exactly when the new head equals
  some element of the pre-move snake, head and tail included. So the last cell of a
  non-empty snake always collides; in a tick of a game that is not over, with the new head
  inside the walls, the game is over afterwards exactly when the new head is on the
  pre-move snake; and a move onto the cell of the tail ends the game with nothing else
  changed, although a move without food would vacate that cell.
\<close>

theorem selfCollision_full_body:
  "(selfCollision head prevSnake \<longleftrightarrow> head \<in> set prevSnake) \<and>
   (prevSnake \<noteq> [] \<longrightarrow> selfCollision (last prevSnake) prevSnake) \<and>
   (\<forall>first rest. snake s = first # rest \<and> \<not> gameOver s \<and>
       \<not> wallCollision (moveHead (direction s) first) \<longrightarrow>
       (\<forall>s'. tick rnd s = Some s' \<longrightarrow>
          (gameOver s' \<longleftrightarrow> moveHead (direction s) first \<in> set (snake s)))) \<and>
   (\<forall>first rest. snake s = first # rest \<and> moveHead (direction s) first = last (snake s) \<longrightarrow>
       tick rnd s = Some (s\<lparr>gameOver := True\<rparr>))"
proof (intro conjI allI impI)
  show "selfCollision head prevSnake \<longleftrightarrow> head \<in> set prevSnake"
    by (rule selfCollision_iff)
next
  assume "prevSnake \<noteq> []"
  then show "selfCollision (last prevSnake) prevSnake"
    by (simp add: selfCollision_iff)
next
  fix first rest s'
  assume a: "snake s = first # rest \<and> \<not> gameOver s \<and> \<not> wallCollision (moveHead (direction s) first)"
    and t: "tick rnd s = Some s'"
  show "gameOver s' \<longleftrightarrow> moveHead (direction s) first \<in> set (snake s)"
  proof (cases "moveHead (direction s) first \<in> set (snake s)")
    case True
    with a t tick_collision[of s first rest rnd] show ?thesis by auto
  next
    case False
    show ?thesis
    proof (cases "moveHead (direction s) first = food s")
      case True
      with a t False tick_eat[of s first rest rnd] show ?thesis
        by (auto split: option.splits)
    next
      case nf: False
      with a t False tick_move[of s first rest rnd] show ?thesis by auto
    qed
  qed
next
  fix first rest
  assume a: "snake s = first # rest \<and> moveHead (direction s) first = last (snake s)"
  then have "moveHead (direction s) first \<in> set (snake s)"
    by (metis last_in_set list.distinct(1))
  with a show "tick rnd s = Some (s\<lparr>gameOver := True\<rparr>)"
    using tick_collision[of s first rest rnd] by blast
qed

text \<open>
  Witness for C2: the snake (5,5), (6,5), (6,6), (5,6) heading down moves its head onto
  the cell (5,6) of its tail, and the tick ends the game.
\<close>

theorem selfCollision_full_body_witness:
  "snake coiled = \<lparr>x = 5, y = 5\<rparr> # [\<lparr>x = 6, y = 5\<rparr>, \<lparr>x = 6, y = 6\<rparr>, \<lparr>x = 5, y = 6\<rparr>] \<and>
   moveHead (direction coiled) \<lparr>x = 5, y = 5\<rparr> = last (snake coiled) \<and>
   snake coiled \<noteq> [] \<and> selfCollision (last (snake coiled)) (snake coiled) \<and>
   tick rndA coiled = Some (coiled\<lparr>gameOver := True\<rparr>)"
proof -
  have sn: "snake coiled = \<lparr>x = 5, y = 5\<rparr> # [\<lparr>x = 6, y = 5\<rparr>, \<lparr>x = 6, y = 6\<rparr>, \<lparr>x = 5, y = 6\<rparr>]"
    by (simp add: coiled_def)
  have mv: "moveHead (direction coiled) \<lparr>x = 5, y = 5\<rparr> = last (snake coiled)"
    by (simp add: coiled_def)
  have ne: "snake coiled \<noteq> []"
    by (simp add: coiled_def)
  note inst = selfCollision_full_body[of "last (snake coiled)" "snake coiled" coiled rndA]
  from inst ne have "selfCollision (last (snake coiled)) (snake coiled)"
    by blast
  moreover from inst sn mv have "tick rndA coiled = Some (coiled\<lparr>gameOver := True\<rparr>)"
    by blast
  ultimately show ?thesis using sn mv ne by blast
qed

text \<open>
  Claim C3. In a tick of a running game whose displaced head collides (a coordinate
  outside \<open>[0, GRID_SIZE)\<close>, or the head on a cell of the pre-move snake), the tick
  returns, the state becomes GameOver, and snake, score and food are what they were before
  the tick; no draw for new food is made.
\<close>

theorem tick_collision_atomic:
  assumes "gameState s = Running"
    and "snake s = first # rest"
    and "head = moveHead (direction s) first"
    and "x head < 0 \<or> GRID_SIZE \<le> x head \<or> y head < 0 \<or> GRID_SIZE \<le> y head \<or>
         head \<in> set (snake s)"
  shows "\<exists>s'. tick rnd s = Some s' \<and> s' = s\<lparr>gameOver := True\<rparr> \<and> gameState s' = GameOver \<and>
              snake s' = snake s \<and> score s' = score s \<and> food s' = food s \<and>
              drawn s' = drawn s"
proof -
  from assms(3,4) have "wallCollision (moveHead (direction s) first) \<or>
      moveHead (direction s) first \<in> set (snake s)"
    by (auto simp: wallCollision_def)
  from tick_collision[OF assms(2) this]
  have "tick rnd s = Some (s\<lparr>gameOver := True\<rparr>)" .
  moreover from assms(1) have "gameState (s\<lparr>gameOver := True\<rparr>) = GameOver"
    by (simp add: gameState_def split: if_splits)
  ultimately show ?thesis by simp
qed

text \<open>
  Witness for C3: a head at (0, 5) that heads left is displaced to (-1, 5).
\<close>

theorem tick_collision_atomic_witness:
  "gameState atWall = Running \<and>
   snake atWall = \<lparr>x = 0, y = 5\<rparr> # [\<lparr>x = 1, y = 5\<rparr>, \<lparr>x = 2, y = 5\<rparr>] \<and>
   \<lparr>x = - 1, y = 5\<rparr> = moveHead (direction atWall) \<lparr>x = 0, y = 5\<rparr> \<and>
   x \<lparr>x = - 1, y = 5\<rparr> < 0 \<and>
   (\<exists>s'. tick rndA atWall = Some s' \<and> s' = atWall\<lparr>gameOver := True\<rparr> \<and>
      gameState s' = GameOver \<and> snake s' = snake atWall \<and> score s' = score atWall \<and>
      food s' = food atWall \<and> drawn s' = drawn atWall)"
proof -
  have g: "gameState atWall = Running"
    by (simp add: gameState_def atWall_def)
  have sn: "snake atWall = \<lparr>x = 0, y = 5\<rparr> # [\<lparr>x = 1, y = 5\<rparr>, \<lparr>x = 2, y = 5\<rparr>]"
    by (simp add: atWall_def)
  have mv: "\<lparr>x = - 1, y = 5\<rparr> = moveHead (direction atWall) \<lparr>x = 0, y = 5\<rparr>"
    by (simp add: atWall_def)
  have out: "x \<lparr>x = - 1, y = 5\<rparr> < 0 \<or> GRID_SIZE \<le> x \<lparr>x = - 1, y = 5\<rparr> \<or>
      y \<lparr>x = - 1, y = 5\<rparr> < 0 \<or> GRID_SIZE \<le> y \<lparr>x = - 1, y = 5\<rparr> \<or>
      \<lparr>x = - 1, y = 5\<rparr> \<in> set (snake atWall)"
    by simp
  have neg: "x \<lparr>x = - 1, y = 5\<rparr> < 0"
    by simp
  from tick_collision_atomic[OF g sn mv out, of rndA] g sn mv neg show ?thesis
    by blast
qed

text \<open>
  Claim C4. In a tick without collision: if the new head is not on the food, the tick
  returns a snake of the same length. If the new head is on the food, the snake of the
  state the tick returns is one cell longer; the tick returns such a state whenever some
  draw of the random source is off the grown snake, and it does not return at all when
  every draw is on it.
\<close>

theorem tick_length:
  assumes "snake s = first # rest" and "head = moveHead (direction s) first"
    and "\<not> wallCollision head" and "head \<notin> set (snake s)"
  shows "(head \<noteq> food s \<longrightarrow>
            (\<exists>s'. tick rnd s = Some s' \<and> length (snake s') = length (snake s))) \<and>
         (head = food s \<longrightarrow>
            ((\<exists>k. nthDraw rnd (drawn s) k \<notin> set (head # snake s)) \<longrightarrow>
               (\<exists>s'. tick rnd s = Some s' \<and> length (snake s') = length (snake s) + 1)) \<and>
            ((\<forall>k. nthDraw rnd (drawn s) k \<in> set (head # snake s)) \<longrightarrow> tick rnd s = None) \<and>
            (\<forall>s'. tick rnd s = Some s' \<longrightarrow> length (snake s') = length (snake s) + 1))"
proof (intro conjI impI)
  assume nf: "head \<noteq> food s"
  have "tick rnd s = Some (s\<lparr>snake := head # butlast (snake s)\<rparr>)"
    using tick_branches[OF assms(1,2), of rnd] assms(3,4) nf by simp
  moreover have "length (head # butlast (snake s)) = length (snake s)"
    using assms(1) by simp
  ultimately show "\<exists>s'. tick rnd s = Some s' \<and> length (snake s') = length (snake s)"
    by simp
next
  assume eat: "head = food s"
  have t: "tick rnd s =
     (case placeFood rnd (head # snake s) (drawn s) of
        None \<Rightarrow> None
      | Some (newFood, i) \<Rightarrow>
          Some (s\<lparr>score := score s + 10, food := newFood, drawn := i, snake := head # snake s\<rparr>))"
    using tick_branches[OF assms(1,2), of rnd] assms(3,4) eat by simp
  show "\<forall>s'. tick rnd s = Some s' \<longrightarrow> length (snake s') = length (snake s) + 1"
    unfolding t by (auto split: option.splits)
  show "tick rnd s = None" if "\<forall>k. nthDraw rnd (drawn s) k \<in> set (head # snake s)"
    using tick_eat_draws(2)[OF assms eat, of rnd] that by blast
  show "\<exists>s'. tick rnd s = Some s' \<and> length (snake s') = length (snake s) + 1"
    if "\<exists>k. nthDraw rnd (drawn s) k \<notin> set (head # snake s)"
  proof -
    from that have "\<exists>r. placeFood rnd (head # snake s) (drawn s) = Some r"
      using placeFood_returns_iff[of rnd "head # snake s" "drawn s"]
      unfolding isValidFoodPosition_iff by blast
    then show ?thesis unfolding t by (auto split: option.splits)
  qed
qed

text \<open>
  Witness for C4: from the initial snake heading up, the tick of the run with \<open>rndA\<close>
  (food at (15, 15)) keeps three cells, and the tick of the run with \<open>rndB\<close> (food at
  (10, 9), next draw (15, 15)) makes four.
\<close>

theorem tick_length_witness:
  "snake runningA = \<lparr>x = 10, y = 10\<rparr> # [\<lparr>x = 10, y = 11\<rparr>, \<lparr>x = 10, y = 12\<rparr>] \<and>
   \<lparr>x = 10, y = 9\<rparr> = moveHead (direction runningA) \<lparr>x = 10, y = 10\<rparr> \<and>
   \<not> wallCollision \<lparr>x = 10, y = 9\<rparr> \<and> \<lparr>x = 10, y = 9\<rparr> \<notin> set (snake runningA) \<and>
   \<lparr>x = 10, y = 9\<rparr> \<noteq> food runningA \<and>
   (\<exists>s'. tick rndA runningA = Some s' \<and> length (snake s') = length (snake runningA)) \<and>
   snake runningB = \<lparr>x = 10, y = 10\<rparr> # [\<lparr>x = 10, y = 11\<rparr>, \<lparr>x = 10, y = 12\<rparr>] \<and>
   \<lparr>x = 10, y = 9\<rparr> = moveHead (direction runningB) \<lparr>x = 10, y = 10\<rparr> \<and>
   \<lparr>x = 10, y = 9\<rparr> \<notin> set (snake runningB) \<and> \<lparr>x = 10, y = 9\<rparr> = food runningB \<and>
   nthDraw rndB (drawn runningB) 0 \<notin> set (\<lparr>x = 10, y = 9\<rparr> # snake runningB) \<and>
   (\<exists>s'. tick rndB runningB = Some s' \<and> length (snake s') = length (snake runningB) + 1)"
proof -
  have snA: "snake runningA = \<lparr>x = 10, y = 10\<rparr> # [\<lparr>x = 10, y = 11\<rparr>, \<lparr>x = 10, y = 12\<rparr>]"
    by (simp add: runningA_def startGame_def mountedA_def initialGame_def INITIAL_SNAKE_def)
  have mvA: "\<lparr>x = 10, y = 9\<rparr> = moveHead (direction runningA) \<lparr>x = 10, y = 10\<rparr>"
    by (simp add: runningA_def startGame_def mountedA_def initialGame_def INITIAL_DIRECTION_def)
  have nw: "\<not> wallCollision \<lparr>x = 10, y = 9\<rparr>"
    by (simp add: wallCollision_def GRID_SIZE_def)
  have nsA: "\<lparr>x = 10, y = 9\<rparr> \<notin> set (snake runningA)"
    unfolding snA by simp
  have nfA: "\<lparr>x = 10, y = 9\<rparr> \<noteq> food runningA"
    by (simp add: runningA_def startGame_def mountedA_def initialGame_def)
  have snB: "snake runningB = \<lparr>x = 10, y = 10\<rparr> # [\<lparr>x = 10, y = 11\<rparr>, \<lparr>x = 10, y = 12\<rparr>]"
    by (simp add: runningB_def startGame_def mountedB_def initialGame_def INITIAL_SNAKE_def)
  have mvB: "\<lparr>x = 10, y = 9\<rparr> = moveHead (direction runningB) \<lparr>x = 10, y = 10\<rparr>"
    by (simp add: runningB_def startGame_def mountedB_def initialGame_def INITIAL_DIRECTION_def)
  have nsB: "\<lparr>x = 10, y = 9\<rparr> \<notin> set (snake runningB)"
    unfolding snB by simp
  have fB: "\<lparr>x = 10, y = 9\<rparr> = food runningB"
    by (simp add: runningB_def startGame_def mountedB_def initialGame_def)
  have "nthDraw rndB (drawn runningB) 0 = \<lparr>x = 15, y = 15\<rparr>"
    by (simp add: nthDraw_def rndB_draws runningB_def startGame_def mountedB_def initialGame_def)
  then have free: "nthDraw rndB (drawn runningB) 0 \<notin> set (\<lparr>x = 10, y = 9\<rparr> # snake runningB)"
    unfolding snB by simp
  from tick_length[OF snA mvA nw nsA, of rndA] nfA
  have "\<exists>s'. tick rndA runningA = Some s' \<and> length (snake s') = length (snake runningA)"
    by blast
  moreover from tick_length[OF snB mvB nw nsB, of rndB] fB free
  have "\<exists>s'. tick rndB runningB = Some s' \<and> length (snake s') = length (snake runningB) + 1"
    by blast
  ultimately show ?thesis
    using snA mvA nw nsA nfA snB mvB nsB fB free by blast
qed

section \<open>Eating\<close>

text \<open>
  Claim C5. In a tick of a reachable running state in which the new head equals the food
  position: when the \<open>k\<close>-th draw of the random source is the first one off the grown
  snake, the tick commits the score increased by 10, the snake grown by the new head with
  no cell removed, and the food at that draw; when every draw is on the grown snake the
  tick commits nothing, because it never returns. Every state the tick commits has the
  score increased by 10, the grown snake, and the food on a cell of the grid that no
  segment of the grown snake occupies; the game keeps running.
\<close>

theorem tick_eats_food:
  assumes "unit_source rnd" and "reachable rnd s" and "gameState s = Running"
    and "head = moveHead (direction s) (hd (snake s))" and "head = food s"
  shows "(\<forall>k. nthDraw rnd (drawn s) k \<notin> set (head # snake s) \<and>
              (\<forall>j<k. nthDraw rnd (drawn s) j \<in> set (head # snake s)) \<longrightarrow>
            tick rnd s = Some (s\<lparr>score := score s + 10, food := nthDraw rnd (drawn s) k,
                                 drawn := drawn s + 2 * k + 2, snake := head # snake s\<rparr>)) \<and>
         ((\<forall>k. nthDraw rnd (drawn s) k \<in> set (head # snake s)) \<longrightarrow> tick rnd s = None) \<and>
         (\<forall>s'. tick rnd s = Some s' \<longrightarrow>
            score s' = score s + 10 \<and> snake s' = head # snake s \<and>
            food s' \<notin> set (snake s') \<and>
            0 \<le> x (food s') \<and> x (food s') < GRID_SIZE \<and>
            0 \<le> y (food s') \<and> y (food s') < GRID_SIZE \<and> gameState s' = Running)"
proof -
  from reachable_snakeOk[OF assms(2)] have ok: "snakeOk s" .
  then obtain first rest where sn: "snake s = first # rest"
    by (cases "snake s") (auto simp: snakeOk_def)
  have hd: "head = moveHead (direction s) first"
    using assms(4) sn by simp
  have nw: "\<not> wallCollision head"
    unfolding assms(5) by (rule reachable_food_in_grid[OF assms(1,2)])
  have ns: "head \<notin> set (snake s)"
    unfolding assms(5) using ok by (simp add: snakeOk_def)
  have t: "tick rnd s =
     (case placeFood rnd (head # snake s) (drawn s) of
        None \<Rightarrow> None
      | Some (newFood, i) \<Rightarrow>
          Some (s\<lparr>score := score s + 10, food := newFood, drawn := i, snake := head # snake s\<rparr>))"
    using tick_branches[OF sn hd, of rnd] nw ns assms(5) by simp
  have after: "score s' = score s + 10 \<and> snake s' = head # snake s \<and>
        food s' \<notin> set (snake s') \<and>
        0 \<le> x (food s') \<and> x (food s') < GRID_SIZE \<and>
        0 \<le> y (food s') \<and> y (food s') < GRID_SIZE \<and> gameState s' = Running"
    if "tick rnd s = Some s'" for s'
  proof -
    from that obtain f i where pf: "placeFood rnd (head # snake s) (drawn s) = Some (f, i)"
      and s': "s' = s\<lparr>score := score s + 10, food := f, drawn := i, snake := head # snake s\<rparr>"
      unfolding t by (auto split: option.splits)
    from placeFood_Some_valid[OF pf] have "f \<notin> set (head # snake s)"
      by (simp add: isValidFoodPosition_iff)
    moreover from placeFood_in_grid[OF assms(1) pf]
    have "0 \<le> x f \<and> x f < GRID_SIZE \<and> 0 \<le> y f \<and> y f < GRID_SIZE"
      by (auto simp: wallCollision_def)
    ultimately show ?thesis
      using assms(3) by (simp add: s' gameState_def split: if_splits)
  qed
  show ?thesis
    using tick_eat_draws[OF sn hd nw ns assms(5), of rnd] after by blast
qed

text \<open>
  Witness for C5: in the run with \<open>rndB\<close> the food is at (10, 9), the first tick eats it,
  and the new food is the next draw, (15, 15).
\<close>

theorem tick_eats_food_witness:
  "unit_source rndB \<and> reachable rndB runningB \<and> gameState runningB = Running \<and>
   \<lparr>x = 10, y = 9\<rparr> = moveHead (direction runningB) (hd (snake runningB)) \<and>
   \<lparr>x = 10, y = 9\<rparr> = food runningB \<and>
   nthDraw rndB (drawn runningB) 0 \<notin> set (\<lparr>x = 10, y = 9\<rparr> # snake runningB) \<and>
   tick rndB runningB =
     Some (runningB\<lparr>score := score runningB + 10, food := nthDraw rndB (drawn runningB) 0,
                     drawn := drawn runningB + 2 * 0 + 2,
                     snake := \<lparr>x = 10, y = 9\<rparr> # snake runningB\<rparr>) \<and>
   tick rndB runningB = Some fedB \<and>
   score fedB = score runningB + 10 \<and> snake fedB = \<lparr>x = 10, y = 9\<rparr> # snake runningB \<and>
   food fedB \<notin> set (snake fedB) \<and> gameState fedB = Running"
proof -
  have g: "gameState runningB = Running"
    by (simp add: gameState_Running_iff loopRuns_runningB)
  have mv: "\<lparr>x = 10, y = 9\<rparr> = moveHead (direction runningB) (hd (snake runningB))"
    by (simp add: runningB_def startGame_def mountedB_def initialGame_def INITIAL_SNAKE_def
        INITIAL_DIRECTION_def)
  have f: "\<lparr>x = 10, y = 9\<rparr> = food runningB"
    by (simp add: runningB_def startGame_def mountedB_def initialGame_def)
  have "nthDraw rndB (drawn runningB) 0 = \<lparr>x = 15, y = 15\<rparr>"
    by (simp add: nthDraw_def rndB_draws runningB_def startGame_def mountedB_def initialGame_def)
  then have free: "nthDraw rndB (drawn runningB) 0 \<notin> set (\<lparr>x = 10, y = 9\<rparr> # snake runningB)"
    by (simp add: runningB_def startGame_def mountedB_def initialGame_def INITIAL_SNAKE_def)
  note inst = tick_eats_food[OF rndB_unit reachable_runningB g mv f]
  have first: "\<forall>j<0::nat. nthDraw rndB (drawn runningB) j \<in> set (\<lparr>x = 10, y = 9\<rparr> # snake runningB)"
    by simp
  from inst free first
  have t: "tick rndB runningB =
     Some (runningB\<lparr>score := score runningB + 10, food := nthDraw rndB (drawn runningB) 0,
                     drawn := drawn runningB + 2 * 0 + 2,
                     snake := \<lparr>x = 10, y = 9\<rparr> # snake runningB\<rparr>)"
    by blast
  from inst tick_runningB
  have "score fedB = score runningB + 10 \<and> snake fedB = \<lparr>x = 10, y = 9\<rparr> # snake runningB \<and>
        food fedB \<notin> set (snake fedB) \<and> gameState fedB = Running"
    by blast
  with rndB_unit reachable_runningB g mv f free t tick_runningB show ?thesis by blast
qed

section \<open>Keys\<close>

lemma keyMap_space: "keyMap '' '' = None"
  by (simp add: keyMap_def)

text \<open>A movement key in a running game.\<close>

lemma handleKeyPress_movement:
  assumes "gameState s = Running" and "keyMap key = Some d"
  shows "handleKeyPress rnd key s =
           Some (if d = oppositeDirections (direction s) then s else s\<lparr>direction := d\<rparr>)"
proof -
  from assms(2) have ns: "key \<noteq> '' ''"
    using keyMap_space by auto
  from assms(1) have run: "gameStarted s" "\<not> isPaused s" "\<not> gameOver s"
    by (simp_all add: gameState_def split: if_splits)
  show ?thesis
    using ns run assms(2) by (simp add: handleKeyPress_def)
qed

text \<open>
  Claim C8. A movement key in a running game leaves the pending direction unchanged if it
  maps to the opposite of the pending direction, and sets the pending direction to the
  mapped direction otherwise. A further movement key before the next tick is treated in
  the same way against the pending direction of that moment, so it overwrites the earlier
  one. The next tick displaces the head by the pending direction that the key left: it
  ends the game if that cell is outside the grid or on the snake, grows the snake onto that
  cell if the food is there, and moves the snake onto it otherwise.
\<close>

theorem direction_filter:
  assumes "gameState s = Running" and "keyMap key = Some d"
  shows "\<exists>s'. handleKeyPress rnd key s = Some s' \<and>
           s' = (if d = oppositeDirections (direction s) then s else s\<lparr>direction := d\<rparr>) \<and>
           (\<forall>key2 d2. keyMap key2 = Some d2 \<longrightarrow>
              handleKeyPress rnd key2 s' =
                Some (if d2 = oppositeDirections (direction s') then s'
                      else s'\<lparr>direction := d2\<rparr>)) \<and>
           (\<forall>first rest head. snake s = first # rest \<and> head = moveHead (direction s') first \<longrightarrow>
              tick rnd s' =
                (if wallCollision head \<or> head \<in> set (snake s) then Some (s'\<lparr>gameOver := True\<rparr>)
                 else if head = food s then
                   (case placeFood rnd (head # snake s) (drawn s) of
                      None \<Rightarrow> None
                    | Some (newFood, i) \<Rightarrow>
                        Some (s'\<lparr>score := score s + 10, food := newFood, drawn := i,
                                 snake := head # snake s\<rparr>))
                 else Some (s'\<lparr>snake := head # butlast (snake s)\<rparr>)))"
proof -
  define s' where "s' = (if d = oppositeDirections (direction s) then s else s\<lparr>direction := d\<rparr>)"
  have same: "snake s' = snake s" "food s' = food s" "drawn s' = drawn s" "score s' = score s"
    by (simp_all add: s'_def)
  have "gameState s' = gameState s"
    by (simp add: s'_def gameState_def)
  with assms(1) have run': "gameState s' = Running" by simp
  have "handleKeyPress rnd key s = Some s'"
    unfolding s'_def by (rule handleKeyPress_movement[OF assms])
  moreover have "handleKeyPress rnd key2 s' =
      Some (if d2 = oppositeDirections (direction s') then s' else s'\<lparr>direction := d2\<rparr>)"
    if "keyMap key2 = Some d2" for key2 d2
    by (rule handleKeyPress_movement[OF run' that])
  moreover have "tick rnd s' =
                (if wallCollision head \<or> head \<in> set (snake s) then Some (s'\<lparr>gameOver := True\<rparr>)
                 else if head = food s then
                   (case placeFood rnd (head # snake s) (drawn s) of
                      None \<Rightarrow> None
                    | Some (newFood, i) \<Rightarrow>
                        Some (s'\<lparr>score := score s + 10, food := newFood, drawn := i,
                                 snake := head # snake s\<rparr>))
                 else Some (s'\<lparr>snake := head # butlast (snake s)\<rparr>))"
    if "snake s = first # rest" "head = moveHead (direction s') first" for first rest head
  proof -
    from that(1) have "snake s' = first # rest" by (simp add: same)
    from tick_branches[OF this that(2), of rnd] show ?thesis
      unfolding same .
  qed
  ultimately show ?thesis
    unfolding s'_def[symmetric] by blast
qed

text \<open>
  Witness for C8: heading up, the key \<^verbatim>\<open>a\<close> turns the snake left and the key \<^verbatim>\<open>s\<close>
  (down, the opposite of up) changes nothing; after \<^verbatim>\<open>a\<close>, the key \<^verbatim>\<open>s\<close> is accepted and
  overwrites left by down; and the tick after \<^verbatim>\<open>a\<close> alone moves the head from (10, 10)
  to (9, 10).
\<close>

theorem direction_filter_witness:
  "gameState runningA = Running \<and> keyMap ''a'' = Some LEFT \<and> keyMap ''s'' = Some DOWN \<and>
   direction runningA = UP \<and>
   handleKeyPress rndA ''a'' runningA = Some (runningA\<lparr>direction := LEFT\<rparr>) \<and>
   handleKeyPress rndA ''s'' runningA = Some runningA \<and>
   handleKeyPress rndA ''s'' (runningA\<lparr>direction := LEFT\<rparr>) = Some (runningA\<lparr>direction := DOWN\<rparr>) \<and>
   tick rndA (runningA\<lparr>direction := LEFT\<rparr>) =
     Some (runningA\<lparr>direction := LEFT,
                     snake := [\<lparr>x = 9, y = 10\<rparr>, \<lparr>x = 10, y = 10\<rparr>, \<lparr>x = 10, y = 11\<rparr>]\<rparr>)"
proof -
  have g: "gameState runningA = Running"
    by (simp add: gameState_Running_iff loopRuns_runningA)
  have ka: "keyMap ''a'' = Some LEFT" and ks: "keyMap ''s'' = Some DOWN"
    by (simp_all add: keyMap_def)
  have d: "direction runningA = UP"
    by (simp add: runningA_def startGame_def mountedA_def initialGame_def INITIAL_DIRECTION_def)
  have sn: "snake runningA = \<lparr>x = 10, y = 10\<rparr> # [\<lparr>x = 10, y = 11\<rparr>, \<lparr>x = 10, y = 12\<rparr>]"
    by (simp add: runningA_def startGame_def mountedA_def initialGame_def INITIAL_SNAKE_def)
  have fd: "food runningA = \<lparr>x = 15, y = 15\<rparr>"
    by (simp add: runningA_def startGame_def mountedA_def initialGame_def)
  have nw: "\<not> wallCollision \<lparr>x = 9, y = 10\<rparr>"
    by (simp add: wallCollision_def GRID_SIZE_def)
  from direction_filter[OF g ka, of rndA] obtain s' where
    h: "handleKeyPress rndA ''a'' runningA = Some s'"
    and s': "s' = (if LEFT = oppositeDirections (direction runningA) then runningA
                   else runningA\<lparr>direction := LEFT\<rparr>)"
    and again: "\<And>key2 d2. keyMap key2 = Some d2 \<Longrightarrow>
              handleKeyPress rndA key2 s' =
                Some (if d2 = oppositeDirections (direction s') then s'
                      else s'\<lparr>direction := d2\<rparr>)"
    and tk: "\<And>first rest head. snake runningA = first # rest \<Longrightarrow>
              head = moveHead (direction s') first \<Longrightarrow>
              tick rndA s' =
                (if wallCollision head \<or> head \<in> set (snake runningA)
                 then Some (s'\<lparr>gameOver := True\<rparr>)
                 else if head = food runningA then
                   (case placeFood rndA (head # snake runningA) (drawn runningA) of
                      None \<Rightarrow> None
                    | Some (newFood, i) \<Rightarrow>
                        Some (s'\<lparr>score := score runningA + 10, food := newFood, drawn := i,
                                 snake := head # snake runningA\<rparr>))
                 else Some (s'\<lparr>snake := head # butlast (snake runningA)\<rparr>))"
    by blast
  from s' have s'_eq: "s' = runningA\<lparr>direction := LEFT\<rparr>"
    by (simp add: d)
  have left: "handleKeyPress rndA ''a'' runningA = Some (runningA\<lparr>direction := LEFT\<rparr>)"
    using h unfolding s'_eq .
  have down: "handleKeyPress rndA ''s'' (runningA\<lparr>direction := LEFT\<rparr>)
      = Some (runningA\<lparr>direction := DOWN\<rparr>)"
    using again[OF ks] unfolding s'_eq by simp
  have mv: "\<lparr>x = 9, y = 10\<rparr> = moveHead (direction s') \<lparr>x = 10, y = 10\<rparr>"
    unfolding s'_eq by simp
  have t: "tick rndA (runningA\<lparr>direction := LEFT\<rparr>) =
     Some (runningA\<lparr>direction := LEFT,
                     snake := [\<lparr>x = 9, y = 10\<rparr>, \<lparr>x = 10, y = 10\<rparr>, \<lparr>x = 10, y = 11\<rparr>]\<rparr>)"
    using tk[OF sn mv] nw unfolding s'_eq by (simp add: sn fd)
  from direction_filter[OF g ks, of rndA]
  have same: "handleKeyPress rndA ''s'' runningA = Some runningA"
    by (simp add: d)
  from g ka ks d left same down t show ?thesis by blast
qed

text \<open>
  Claim C10. A movement key (one of the eight arrow and letter identifiers) in a running
  game changes at most the pending direction: snake, food, score, the three flags, the
  game state and the cursor of the random source are as before.
\<close>

theorem movement_key_frame:
  assumes "gameState s = Running"
    and "key \<in> set [''ArrowUp'', ''ArrowDown'', ''ArrowLeft'', ''ArrowRight'',
                    ''w'', ''s'', ''a'', ''d'']"
  shows "\<exists>s'. handleKeyPress rnd key s = Some s' \<and> s' = s\<lparr>direction := direction s'\<rparr> \<and>
              snake s' = snake s \<and> food s' = food s \<and> score s' = score s \<and>
              gameOver s' = gameOver s \<and> isPaused s' = isPaused s \<and>
              gameStarted s' = gameStarted s \<and> drawn s' = drawn s \<and>
              gameState s' = gameState s"
proof -
  from assms(2) obtain d where d: "keyMap key = Some d"
    by (auto simp: keyMap_def)
  then have ns: "key \<noteq> '' ''"
    using keyMap_space by auto
  from assms(1) have run: "gameStarted s" "\<not> isPaused s" "\<not> gameOver s"
    by (simp_all add: gameState_def split: if_splits)
  have "handleKeyPress rnd key s =
          Some (if d = oppositeDirections (direction s) then s else s\<lparr>direction := d\<rparr>)"
    using ns run d by (simp add: handleKeyPress_def)
  then show ?thesis
    by (simp add: gameState_def)
qed

text \<open>
  Witness for C10: the key \<^verbatim>\<open>ArrowLeft\<close> in the running state of the run with \<open>rndA\<close>.
\<close>

theorem movement_key_frame_witness:
  "gameState runningA = Running \<and>
   ''ArrowLeft'' \<in> set [''ArrowUp'', ''ArrowDown'', ''ArrowLeft'', ''ArrowRight'',
                    ''w'', ''s'', ''a'', ''d''] \<and>
   (\<exists>s'. handleKeyPress rndA ''ArrowLeft'' runningA = Some s' \<and>
      snake s' = snake runningA \<and> food s' = food runningA \<and> score s' = score runningA \<and>
      gameState s' = Running)"
proof -
  have g: "gameState runningA = Running"
    by (simp add: gameState_Running_iff loopRuns_runningA)
  have k: "''ArrowLeft'' \<in> set [''ArrowUp'', ''ArrowDown'', ''ArrowLeft'', ''ArrowRight'',
                    ''w'', ''s'', ''a'', ''d'']"
    by simp
  from movement_key_frame[OF g k, of rndA] g k show ?thesis
    by auto
qed

text \<open>
  Claim C1 as stated fails: in the state after the mount effect, which is NotStarted and
  not paused, the space key passes the guard of line 57 and reaches line 74, so the
  handler returns a state with \<^verbatim>\<open>isPaused\<close> set.
\<close>

theorem space_before_start_counterexample:
  "reachable rndA mountedA \<and> gameState mountedA = NotStarted \<and> \<not> isPaused mountedA \<and>
   handleKeyPress rndA '' '' mountedA = Some (mountedA\<lparr>isPaused := True\<rparr>) \<and>
   handleKeyPress rndA '' '' mountedA \<noteq> Some mountedA"
  using reachable_mountedA
  by (simp add: handleKeyPress_def gameState_def mountedA_def initialGame_def)

text \<open>
  Claim C1, amended. In a reachable state that is NotStarted, every key other than space
  changes nothing, and the space key does not restart: it leaves snake, food, score,
  pending direction, \<^verbatim>\<open>gameOver\<close> and \<^verbatim>\<open>gameStarted\<close> as they are, so the game state stays
  NotStarted. It does toggle the \<^verbatim>\<open>isPaused\<close> flag, which the start action sets to false
  again.
\<close>

theorem keys_before_start:
  assumes "reachable rnd s" and "gameState s = NotStarted"
  shows "(key \<noteq> '' '' \<longrightarrow> handleKeyPress rnd key s = Some s) \<and>
         (\<exists>s'. handleKeyPress rnd '' '' s = Some s' \<and> s' = s\<lparr>isPaused := \<not> isPaused s\<rparr> \<and>
            snake s' = snake s \<and> food s' = food s \<and> score s' = score s \<and>
            direction s' = direction s \<and> gameOver s' = gameOver s \<and>
            gameStarted s' = gameStarted s \<and> drawn s' = drawn s \<and>
            gameState s' = NotStarted \<and> startGame s' = startGame s)"
proof -
  from assms(2) have ns: "\<not> gameStarted s"
    by (simp add: gameState_def split: if_splits)
  with reachable_snakeOk[OF assms(1)] have ngo: "\<not> gameOver s"
    by (auto simp: snakeOk_def)
  from ns have "key \<noteq> '' '' \<longrightarrow> handleKeyPress rnd key s = Some s"
    by (simp add: handleKeyPress_def)
  moreover from ns ngo have "handleKeyPress rnd '' '' s = Some (s\<lparr>isPaused := \<not> isPaused s\<rparr>)"
    by (simp add: handleKeyPress_def)
  moreover from ns have "gameState (s\<lparr>isPaused := \<not> isPaused s\<rparr>) = NotStarted"
    by (simp add: gameState_def)
  moreover have "startGame (s\<lparr>isPaused := \<not> isPaused s\<rparr>) = startGame s"
    by (simp add: startGame_def)
  ultimately show ?thesis by simp
qed

text \<open>
  Witness for the amended C1: the keys \<^verbatim>\<open>w\<close> and space in the state after the mount
  effect.
\<close>

theorem keys_before_start_witness:
  "reachable rndA mountedA \<and> gameState mountedA = NotStarted \<and>
   handleKeyPress rndA ''w'' mountedA = Some mountedA \<and>
   handleKeyPress rndA '' '' mountedA = Some (mountedA\<lparr>isPaused := \<not> isPaused mountedA\<rparr>) \<and>
   gameState (mountedA\<lparr>isPaused := \<not> isPaused mountedA\<rparr>) = NotStarted"
proof -
  have g: "gameState mountedA = NotStarted"
    by (simp add: gameState_def mountedA_def initialGame_def)
  have "''w'' \<noteq> '' ''" by simp
  with keys_before_start[OF reachable_mountedA g, of "''w''"] reachable_mountedA g
  show ?thesis by auto
qed

section \<open>The snake of a reachable state\<close>

text \<open>
  Claim C9. In every reachable state (the first render, after the mount effect, and after
  every key event, start, restart and tick) the snake is a non-empty sequence of pairwise
  distinct positions whose coordinates lie in \<open>[0, GRID_SIZE)\<close>.
\<close>

theorem reachable_snake_invariant:
  assumes "reachable rnd s"
  shows "snake s \<noteq> [] \<and> distinct (snake s) \<and>
         (\<forall>p \<in> set (snake s). 0 \<le> x p \<and> x p < GRID_SIZE \<and> 0 \<le> y p \<and> y p < GRID_SIZE)"
  using reachable_snakeOk[OF assms] by (auto simp: snakeOk_def wallCollision_def)

text \<open>
  Witness for C9: the state after the first tick of the run with \<open>rndA\<close>.
\<close>

theorem reachable_snake_invariant_witness:
  "reachable rndA movedA \<and> snake movedA \<noteq> [] \<and> distinct (snake movedA) \<and>
   0 \<le> x (last (snake movedA)) \<and> x (last (snake movedA)) < GRID_SIZE \<and>
   0 \<le> y (last (snake movedA)) \<and> y (last (snake movedA)) < GRID_SIZE"
proof -
  note inv = reachable_snake_invariant[OF reachable_movedA]
  from inv have "last (snake movedA) \<in> set (snake movedA)"
    by simp
  with inv reachable_movedA show ?thesis by blast
qed

end
